theory Spec2Isabelle
  imports Complex_Main "HOL-Library.Word" "HOL-Library.Multiset"
begin

unbundle bit_operations_syntax

section \<open>JavaScript strings\<close>

text \<open>
  A JavaScript string is modelled as a \<^typ>\<open>string\<close> whose characters are read as the
  code units 0..255 (Latin-1). The helpers below follow the ECMAScript definitions of
  \<^verbatim>\<open>trim\<close>, \<^verbatim>\<open>toLowerCase\<close>, \<^verbatim>\<open>replace(/\s+/g, ' ')\<close>, \<^verbatim>\<open>split(' ')\<close>,
  \<^verbatim>\<open>join(' ')\<close> and \<^verbatim>\<open>includes\<close> on that range.
\<close>

definition isWhiteSpace :: "char \<Rightarrow> bool" where
  \<comment> \<open>the class \<^verbatim>\<open>\s\<close>: TAB, LF, VT, FF, CR, SPACE and NBSP\<close>
  "isWhiteSpace c =
     (let n = (of_char c :: nat)
      in n = 9 \<or> n = 10 \<or> n = 11 \<or> n = 12 \<or> n = 13 \<or> n = 32 \<or> n = 160)"

definition isLineTerminator :: "char \<Rightarrow> bool" where
  "isLineTerminator c = (let n = (of_char c :: nat) in n = 10 \<or> n = 13)"

definition toLowerChar :: "char \<Rightarrow> char" where
  "toLowerChar c =
     (let n = (of_char c :: nat)
      in if (65 \<le> n \<and> n \<le> 90) \<or> (192 \<le> n \<and> n \<le> 222 \<and> n \<noteq> 215)
         then char_of (n + 32) else c)"

definition toLowerCase :: "string \<Rightarrow> string" where
  "toLowerCase s = map toLowerChar s"

definition trim :: "string \<Rightarrow> string" where
  "trim s = rev (dropWhile isWhiteSpace (rev (dropWhile isWhiteSpace s)))"

function replace_ws :: "string \<Rightarrow> string" where
  "replace_ws [] = []"
| "replace_ws (c # cs) =
     (if isWhiteSpace c then CHR '' '' # replace_ws (dropWhile isWhiteSpace cs)
      else c # replace_ws cs)"
  by pat_completeness auto
termination
  by (relation "measure length") (auto simp: length_dropWhile_le less_Suc_eq_le)

fun js_split :: "char \<Rightarrow> string \<Rightarrow> string list" where
  "js_split sep [] = [[]]"
| "js_split sep (c # cs) =
     (if c = sep then [] # js_split sep cs
      else (case js_split sep cs of
              [] \<Rightarrow> [[c]]
            | w # ws \<Rightarrow> (c # w) # ws))"

fun js_join :: "char \<Rightarrow> string list \<Rightarrow> string" where
  "js_join sep [] = []"
| "js_join sep [w] = w"
| "js_join sep (w # v # ws) = w @ sep # js_join sep (v # ws)"

fun starts_with :: "string \<Rightarrow> string \<Rightarrow> bool" where
  "starts_with [] s = True"
| "starts_with (k # ks) [] = False"
| "starts_with (k # ks) (c # cs) = (k = c \<and> starts_with ks cs)"

fun js_includes :: "string \<Rightarrow> string \<Rightarrow> bool" where
  \<comment> \<open>\<^verbatim>\<open>s.includes(k)\<close>: \<open>k\<close> occurs in \<open>s\<close> as a contiguous substring\<close>
  "js_includes [] k = (k = [])"
| "js_includes (c # cs) k = (starts_with k (c # cs) \<or> js_includes cs k)"

section \<open>Validator (ingestion agent)\<close>

record IngestionOutput =
  cleaned_text :: string
  location :: string
  is_valid :: bool
  reason :: string

definition stopWords :: "string list" where
  "stopWords =
     [''the'', ''is'', ''at'', ''which'', ''on'', ''a'', ''an'', ''and'', ''or'', ''but'',
      ''in'', ''with'', ''to'', ''for'', ''of'', ''as'', ''by'', ''this'', ''that'']"

definition keep_word :: "string \<Rightarrow> bool" where
  "keep_word word = (length word > 2 \<and> word \<notin> set stopWords)"

definition ingestion_words :: "string \<Rightarrow> string list" where
  \<comment> \<open>lines 45-55: trim, lower-case, collapse white space, split, filter\<close>
  "ingestion_words text =
     filter keep_word (js_split CHR '' '' (replace_ws (toLowerCase (trim text))))"

definition spam_regex :: "string \<Rightarrow> bool" where
  \<comment> \<open>\<^verbatim>\<open>/^(.)\1{5,}/.test(text)\<close>: six equal leading characters, not a line terminator\<close>
  "spam_regex text =
     (case text of
        [] \<Rightarrow> False
      | c # cs \<Rightarrow> \<not> isLineTerminator c \<and> 5 \<le> length cs \<and> list_all ((=) c) (take 5 cs))"

definition ingest :: "string \<Rightarrow> string \<Rightarrow> IngestionOutput" where
  "ingest text loc =
     (let words = ingestion_words text;
          verdict =
            (if length text < 10 then (False, ''Text too short (minimum 10 characters)'')
             else if length words < 3 then (False, ''Not enough meaningful words'')
             else if spam_regex text
               then (False, ''Contains repeated characters (spam detected)'')
             else (True, ''''))
      in \<lparr> cleaned_text = js_join CHR '' '' words,
           location = trim loc,
           is_valid = fst verdict,
           reason = snd verdict \<rparr>)"

section \<open>JavaScript numbers\<close>

text \<open>
  Numbers that flow through array reads are modelled as \<^typ>\<open>real option\<close>: \<open>None\<close> is
  NaN, the value arithmetic yields on \<^verbatim>\<open>undefined\<close> (an array read past the end).
  Finite values are exact reals; rounding and overflow of IEEE doubles are not modelled.
\<close>

type_synonym number = "real option"

definition num_add :: "number \<Rightarrow> number \<Rightarrow> number" where
  "num_add x y = (case (x, y) of (Some a, Some b) \<Rightarrow> Some (a + b) | _ \<Rightarrow> None)"

definition num_mul :: "number \<Rightarrow> number \<Rightarrow> number" where
  "num_mul x y = (case (x, y) of (Some a, Some b) \<Rightarrow> Some (a * b) | _ \<Rightarrow> None)"

definition num_div :: "number \<Rightarrow> number \<Rightarrow> number" where
  \<comment> \<open>the only divisions by zero in the source are \<open>0 / 0\<close>, which is NaN\<close>
  "num_div x y =
     (case (x, y) of (Some a, Some b) \<Rightarrow> (if b = 0 then None else Some (a / b)) | _ \<Rightarrow> None)"

definition num_sqrt :: "number \<Rightarrow> number" where
  "num_sqrt x = (case x of Some a \<Rightarrow> (if a < 0 then None else Some (sqrt a)) | None \<Rightarrow> None)"

definition num_less :: "number \<Rightarrow> number \<Rightarrow> bool" where
  \<comment> \<open>a comparison with NaN is false\<close>
  "num_less x y = (case (x, y) of (Some a, Some b) \<Rightarrow> a < b | _ \<Rightarrow> False)"

definition js_nth :: "number list \<Rightarrow> nat \<Rightarrow> number" where
  \<comment> \<open>\<^verbatim>\<open>a[i]\<close> used as a number: \<^verbatim>\<open>undefined\<close> past the end\<close>
  "js_nth a i = (if i < length a then a ! i else None)"

section \<open>Clustering Engine (discovery agent)\<close>

text \<open>
  kMeansClustering mutates an array of clusters in place; the model passes the array along.
  Its two sources of behaviour outside the arguments are made arguments: \<open>rnd\<close> gives
  the random draws of the seeding, and a thrown \<^verbatim>\<open>TypeError\<close> is the result \<open>Inl\<close>.
  The cluster count \<open>k\<close> is an integer, as at the only call site.
\<close>

record Complaint =
  c_id :: string
  c_cleaned_text :: string
  c_embedding :: "number list"
  c_location :: string

record Cluster =
  cl_id :: nat
  complaints :: "Complaint list"
  centroid :: "number list"
  title :: string

datatype js_error = TypeError

definition cosineSimilarity :: "number list \<Rightarrow> number list \<Rightarrow> number" where
  "cosineSimilarity a b =
     (let totals = fold (\<lambda>i. \<lambda>(dotProduct, magnitudeA, magnitudeB).
                    (num_add dotProduct (num_mul (js_nth a i) (js_nth b i)),
                     num_add magnitudeA (num_mul (js_nth a i) (js_nth a i)),
                     num_add magnitudeB (num_mul (js_nth b i) (js_nth b i))))
                  [0 ..< length a] (Some 0, Some 0, Some 0);
          dotProduct = fst totals;
          magnitudeA = num_sqrt (fst (snd totals));
          magnitudeB = num_sqrt (snd (snd totals))
      in if magnitudeA = Some 0 \<or> magnitudeB = Some 0 then Some 0
         else num_div dotProduct (num_mul magnitudeA magnitudeB))"

definition init_clusters :: "(nat \<Rightarrow> nat) \<Rightarrow> Complaint list \<Rightarrow> int \<Rightarrow> Cluster list" where
  \<comment> \<open>lines 49-57; \<open>rnd i\<close> stands for the \<open>i\<close>-th value of \<^verbatim>\<open>Math.random\<close>, scaled:
      \<^verbatim>\<open>Math.floor(Math.random() * n)\<close> is some index below \<open>n\<close>\<close>
  "init_clusters rnd xs k =
     map (\<lambda>i. \<lparr> cl_id = i, complaints = [],
                centroid = c_embedding (xs ! (rnd i mod length xs)), title = '''' \<rparr>)
       [0 ..< nat k]"

definition best_cluster :: "Cluster list \<Rightarrow> Complaint \<Rightarrow> nat" where
  \<comment> \<open>lines 64-73: the first cluster of strictly highest similarity, index 0 by default\<close>
  "best_cluster clusters complaint =
     fst (fold (\<lambda>(idx, cluster). \<lambda>(bestCluster, bestSimilarity).
                  let similarity = cosineSimilarity (c_embedding complaint) (centroid cluster)
                  in if num_less bestSimilarity similarity then (idx, similarity)
                     else (bestCluster, bestSimilarity))
            (zip [0 ..< length clusters] clusters) (0, Some (- 1)))"

definition assign :: "Cluster list \<Rightarrow> Complaint \<Rightarrow> js_error + Cluster list" where
  \<comment> \<open>line 75: \<^verbatim>\<open>clusters[bestCluster].complaints.push(complaint)\<close> throws when the
      array has no such element\<close>
  "assign clusters complaint =
     (let bestCluster = best_cluster clusters complaint
      in if bestCluster < length clusters
         then Inr (clusters[bestCluster :=
                (clusters ! bestCluster)\<lparr>complaints :=
                   complaints (clusters ! bestCluster) @ [complaint]\<rparr>])
         else Inl TypeError)"

fun assign_all :: "Cluster list \<Rightarrow> Complaint list \<Rightarrow> js_error + Cluster list" where
  "assign_all clusters [] = Inr clusters"
| "assign_all clusters (x # xs) =
     (case assign clusters x of
        Inl e \<Rightarrow> Inl e
      | Inr clusters' \<Rightarrow> assign_all clusters' xs)"

definition add_embedding :: "number list \<Rightarrow> number list \<Rightarrow> number list" where
  \<comment> \<open>lines 84-86: \<^verbatim>\<open>newCentroid[idx] += val\<close>; a write past the end extends the array\<close>
  "add_embedding newCentroid emb =
     map (\<lambda>idx. if idx < length emb then num_add (js_nth newCentroid idx) (emb ! idx)
                else newCentroid ! idx)
       [0 ..< max (length newCentroid) (length emb)]"

definition new_centroid :: "nat \<Rightarrow> Complaint list \<Rightarrow> number list" where
  "new_centroid embeddingDim members =
     map (\<lambda>val. num_div val (Some (real (length members))))
       (fold (\<lambda>complaint acc. add_embedding acc (c_embedding complaint)) members
          (replicate embeddingDim (Some 0)))"

definition update_centroid :: "nat \<Rightarrow> Cluster \<Rightarrow> bool \<times> Cluster" where
  \<comment> \<open>lines 80-97; the flag says whether this cluster set \<^verbatim>\<open>changed\<close>\<close>
  "update_centroid embeddingDim cluster =
     (if complaints cluster = [] then (False, cluster)
      else let newCentroid = new_centroid embeddingDim (complaints cluster);
               distance = cosineSimilarity (centroid cluster) newCentroid
           in if num_less distance (Some (999 / 1000))
              then (True, cluster\<lparr>centroid := newCentroid\<rparr>)
              else (False, cluster))"

fun iterate :: "nat \<Rightarrow> nat \<Rightarrow> Complaint list \<Rightarrow> Cluster list \<Rightarrow> js_error + Cluster list" where
  \<comment> \<open>lines 60-101, with the number of rounds that remain\<close>
  "iterate 0 embeddingDim xs clusters = Inr clusters"
| "iterate (Suc n) embeddingDim xs clusters =
     (case assign_all (map (\<lambda>cluster. cluster\<lparr>complaints := []\<rparr>) clusters) xs of
        Inl e \<Rightarrow> Inl e
      | Inr assigned \<Rightarrow>
          let updated = map (update_centroid embeddingDim) assigned;
              changed = list_ex fst updated
          in if \<not> changed then Inr (map snd updated)
             else iterate n embeddingDim xs (map snd updated))"

definition maxIterations :: nat where
  "maxIterations = 20"

definition capped_k :: "int \<Rightarrow> Complaint list \<Rightarrow> int" where
  \<comment> \<open>line 44: \<^verbatim>\<open>k = Math.min(k, complaints.length)\<close>\<close>
  "capped_k k xs = min k (int (length xs))"

definition kMeansClustering :: "(nat \<Rightarrow> nat) \<Rightarrow> Complaint list \<Rightarrow> int \<Rightarrow> js_error + Cluster list" where
  "kMeansClustering rnd xs k0 =
     (if xs = [] then Inr []
      else let k = capped_k k0 xs;
               embeddingDim = length (c_embedding (xs ! 0));
               clusters = init_clusters rnd xs k
           in case iterate maxIterations embeddingDim xs clusters of
                Inl e \<Rightarrow> Inl e
              | Inr final \<Rightarrow> Inr (filter (\<lambda>c. complaints c \<noteq> []) final))"

definition numClusters :: "nat \<Rightarrow> int" where
  \<comment> \<open>line 189: \<^verbatim>\<open>Math.min(Math.max(3, Math.ceil(n / 3)), 8)\<close>\<close>
  "numClusters n = min (max 3 \<lceil>real n / 3\<rceil>) 8"

text \<open>Sample inputs for the closed instances below.\<close>

definition always_first :: "nat \<Rightarrow> nat" where
  "always_first i = 0"

definition sample_water :: Complaint where
  "sample_water = \<lparr> c_id = ''c1'', c_cleaned_text = ''water pipe leaking'',
                     c_embedding = [Some 1, Some 0], c_location = ''ward 5'' \<rparr>"

definition sample_road :: Complaint where
  "sample_road = \<lparr> c_id = ''c2'', c_cleaned_text = ''road pothole deep'',
                    c_embedding = [Some 0, Some 1], c_location = ''ward 7'' \<rparr>"

section \<open>Stored complaints\<close>

text \<open>
  A row of the \<^verbatim>\<open>complaints\<close> table. \<open>r_created_at\<close> is the value of
  \<^verbatim>\<open>new Date(c.created_at).getTime()\<close>, milliseconds since the epoch; the column is a
  \<^verbatim>\<open>timestamptz\<close>, so the date always parses.
\<close>

record ComplaintRow =
  r_id :: string
  r_text :: string
  r_cleaned_text :: string
  r_location :: string
  r_status :: string
  r_embedding :: "number list option"
  r_created_at :: int

section \<open>Priority Scorer (priority agent)\<close>

record PriorityFactors =
  complaint_count :: number
  severity_score :: number
  recency_score :: number
  location_density :: number

definition num_min :: "number \<Rightarrow> number \<Rightarrow> number" where
  \<comment> \<open>\<^verbatim>\<open>Math.min\<close>: NaN when an argument is NaN\<close>
  "num_min x y = (case (x, y) of (Some a, Some b) \<Rightarrow> Some (min a b) | _ \<Rightarrow> None)"

definition num_round :: "number \<Rightarrow> number" where
  \<comment> \<open>\<^verbatim>\<open>Math.round\<close>: the nearest integer, ties towards plus infinity\<close>
  "num_round x = (case x of Some a \<Rightarrow> Some (real_of_int \<lfloor>a + 1 / 2\<rfloor>) | None \<Rightarrow> None)"

definition urgentKeywords :: "string list" where
  "urgentKeywords =
     [''urgent'', ''emergency'', ''critical'', ''immediate'', ''severe'', ''dangerous'',
      ''unsafe'', ''health'', ''hospital'', ''children'', ''death'', ''injury'']"

definition importantKeywords :: "string list" where
  "importantKeywords =
     [''important'', ''serious'', ''concern'', ''problem'', ''broken'', ''damage'',
      ''leak'', ''overflow'', ''stuck'']"

definition keyword_hits :: "string \<Rightarrow> string list \<Rightarrow> nat" where
  "keyword_hits text keywords = length (filter (\<lambda>keyword. js_includes text keyword) keywords)"

definition calculateSeverityScore :: "ComplaintRow list \<Rightarrow> number" where
  "calculateSeverityScore cs =
     (let severityScore =
            sum_list (map (\<lambda>complaint.
                let text = toLowerCase (r_cleaned_text complaint)
                in 3 * keyword_hits text urgentKeywords + keyword_hits text importantKeywords) cs)
      in num_min (num_div (Some (real severityScore)) (Some (real (length cs)))) (Some 10))"

definition oneDay :: int where
  "oneDay = 24 * 60 * 60 * 1000"

definition oneWeek :: int where
  "oneWeek = 7 * oneDay"

definition recency_weight :: "int \<Rightarrow> ComplaintRow \<Rightarrow> real" where
  "recency_weight now complaint =
     (let age = now - r_created_at complaint
      in if age < oneDay then 3 else if age < oneWeek then 3 / 2 else 1 / 2)"

definition calculateRecencyScore :: "int \<Rightarrow> ComplaintRow list \<Rightarrow> number" where
  "calculateRecencyScore now cs =
     num_div (Some (sum_list (map (recency_weight now) cs))) (Some (real (length cs)))"

text \<open>
  \<^verbatim>\<open>locationMap\<close> is a plain object, so a read of a key the map does not own falls through
  to \<^verbatim>\<open>Object.prototype\<close>. For the name of an inherited method the read yields a
  function, \<^verbatim>\<open>(f || 0) + 1\<close> is a string, and the string is stored as the map's own
  value; later increments append to it. For \<^verbatim>\<open>__proto__\<close> the read yields an object and
  the write of the resulting string is dropped by the setter, so the key is never owned.
  The map is an association list in insertion order; the value \<open>None\<close> stands for such a
  string, which \<^verbatim>\<open>Math.max\<close> converts to NaN.
\<close>

definition inherited_keys :: "string list" where
  "inherited_keys =
     [''constructor'', ''toString'', ''toLocaleString'', ''valueOf'', ''hasOwnProperty'',
      ''isPrototypeOf'', ''propertyIsEnumerable'', ''__defineGetter__'', ''__defineSetter__'',
      ''__lookupGetter__'', ''__lookupSetter__'']"

definition count_location :: "string \<Rightarrow> (string \<times> number) list \<Rightarrow> (string \<times> number) list" where
  \<comment> \<open>line 398: \<^verbatim>\<open>locationMap[l] = (locationMap[l] || 0) + 1\<close>\<close>
  "count_location l locationMap =
     (if l \<in> set (map fst locationMap)
      then map (\<lambda>(key, val). if key = l then (key, num_add val (Some 1)) else (key, val))
             locationMap
      else if l = ''__proto__'' then locationMap
      else if l \<in> set inherited_keys then locationMap @ [(l, None)]
      else locationMap @ [(l, Some 1)])"

definition num_max :: "number \<Rightarrow> number \<Rightarrow> number" where
  \<comment> \<open>\<^verbatim>\<open>Math.max\<close>: NaN when an argument is NaN\<close>
  "num_max x y = (case (x, y) of (Some a, Some b) \<Rightarrow> Some (max a b) | _ \<Rightarrow> None)"

definition num_log10 :: "number \<Rightarrow> number" where
  \<comment> \<open>\<^verbatim>\<open>Math.log10\<close>; its argument below is NaN or at least 2\<close>
  "num_log10 x = (case x of Some a \<Rightarrow> (if a \<le> 0 then None else Some (log 10 a)) | None \<Rightarrow> None)"

definition calculateLocationDensity :: "ComplaintRow list \<Rightarrow> number" where
  "calculateLocationDensity cs =
     (let locationMap =
            fold (\<lambda>complaint m.
                    if r_location complaint \<noteq> [] then count_location (r_location complaint) m
                    else m) cs [];
          maxDensity = fold num_max (map snd locationMap) (Some 1)
      in num_mul (num_log10 (num_add maxDensity (Some 1))) (Some 3))"

definition calculatePriorityScore :: "PriorityFactors \<Rightarrow> number" where
  "calculatePriorityScore factors =
     (let normalizedCount =
            num_mul (num_min (num_div (complaint_count factors) (Some 10)) (Some 1)) (Some 100);
          score =
            num_add (num_add (num_add
              (num_mul normalizedCount (Some (4 / 10)))
              (num_mul (num_mul (severity_score factors) (Some 10)) (Some (35 / 100))))
              (num_mul (num_mul (recency_score factors) (Some 10)) (Some (15 / 100))))
              (num_mul (num_mul (location_density factors) (Some 10)) (Some (1 / 10)))
      in num_round (num_min score (Some 100)))"

definition priority_factors :: "int \<Rightarrow> ComplaintRow list \<Rightarrow> PriorityFactors" where
  \<comment> \<open>lines 526-531; the handler skips a problem without complaints (line 524)\<close>
  "priority_factors now cs =
     \<lparr> complaint_count = Some (real (length cs)),
       severity_score = calculateSeverityScore cs,
       recency_score = calculateRecencyScore now cs,
       location_density = calculateLocationDensity cs \<rparr>"

definition score_problem :: "int \<Rightarrow> ComplaintRow list \<Rightarrow> number option" where
  \<comment> \<open>lines 524-533: a problem without complaints is skipped and gets no score\<close>
  "score_problem now cs =
     (if cs = [] then None else Some (calculatePriorityScore (priority_factors now cs)))"

definition avg_time :: "ComplaintRow list \<Rightarrow> real" where
  \<comment> \<open>used on non-empty halves only\<close>
  "avg_time half = real_of_int (sum_list (map r_created_at half)) / real (length half)"

definition determineTrend :: "int \<Rightarrow> ComplaintRow list \<Rightarrow> string" where
  "determineTrend now cs =
     (if length cs < 2 then ''stable''
      else let sortedComplaints = sort_key r_created_at cs;
               halfPoint = length sortedComplaints div 2;
               firstHalf = take halfPoint sortedComplaints;
               secondHalf = drop halfPoint sortedComplaints;
               avgTimeFirst = avg_time firstHalf;
               avgTimeSecond = avg_time secondHalf;
               timeDiff = avgTimeSecond - avgTimeFirst;
               expectedDiff = real_of_int (now - r_created_at (sortedComplaints ! 0)) / 2;
               growthRate = real (length secondHalf) / real (length firstHalf)
           in if growthRate > 13 / 10 \<and> timeDiff < expectedDiff * (7 / 10) then ''rising''
              else if growthRate < 7 / 10 then ''falling''
              else ''stable'')"

text \<open>Sample rows for the closed instances below.\<close>

definition constructor_row :: ComplaintRow where
  "constructor_row = \<lparr> r_id = ''k'', r_text = ''Street light is broken again'',
       r_cleaned_text = ''street light broken again'', r_location = ''constructor'',
       r_status = ''analyzed'', r_embedding = None, r_created_at = 0 \<rparr>"

definition sample_row :: "string \<Rightarrow> int \<Rightarrow> ComplaintRow" where
  "sample_row i t = \<lparr> r_id = i, r_text = ''Water pipe is leaking'',
       r_cleaned_text = ''water pipe leaking'', r_location = ''ward 5'',
       r_status = ''analyzed'', r_embedding = None, r_created_at = t \<rparr>"

section \<open>Fingerprint Generator (understanding agent)\<close>

definition simpleHash :: "string \<Rightarrow> nat" where
  \<comment> \<open>\<^verbatim>\<open>hash & hash\<close> keeps the low 32 bits as a signed integer\<close>
  "simpleHash str =
     nat \<bar>sint (fold (\<lambda>c hash. (push_bit 5 hash - hash) + of_nat (of_char c)) str
                 (0 :: 32 word))\<bar>"

definition problemCategories :: "string list list" where
  "problemCategories =
     [[''water'', ''tap'', ''supply'', ''pipe'', ''leak'', ''drinking'', ''dry'', ''shortage''],
      [''road'', ''street'', ''pothole'', ''crack'', ''damage'', ''broken'', ''repair'',
       ''pavement''],
      [''garbage'', ''trash'', ''waste'', ''dump'', ''smell'', ''dirty'', ''cleanliness'',
       ''bin''],
      [''electric'', ''power'', ''light'', ''street'', ''lamp'', ''dark'', ''outage'', ''wire''],
      [''drain'', ''sewage'', ''overflow'', ''block'', ''clog'', ''flood'', ''stagnant'',
       ''smell''],
      [''noise'', ''loud'', ''sound'', ''construction'', ''pollution'', ''disturbance''],
      [''health'', ''hospital'', ''clinic'', ''medicine'', ''doctor'', ''medical'',
       ''emergency''],
      [''safety'', ''crime'', ''theft'', ''danger'', ''security'', ''police'', ''unsafe''],
      [''park'', ''garden'', ''tree'', ''green'', ''playground'', ''maintenance''],
      [''transport'', ''bus'', ''traffic'', ''signal'', ''vehicle'', ''parking'',
       ''congestion'']]"

definition severityTerms :: "string list list" where
  "severityTerms =
     [[''urgent'', ''emergency'', ''critical'', ''immediate'', ''severe'', ''dangerous''],
      [''important'', ''serious'', ''concern'', ''problem'', ''issue'', ''need''],
      [''help'', ''please'', ''request'', ''require'', ''necessary'']]"

definition embedding_words :: "string \<Rightarrow> string list" where
  "embedding_words text = js_split CHR '' '' (toLowerCase text)"

definition categoryScore :: "string list \<Rightarrow> string list \<Rightarrow> real" where
  \<comment> \<open>lines 652-662: 1 for a keyword that is a word of the text, and 0.5 for every word
      that contains the keyword or is contained in it\<close>
  "categoryScore words category =
     sum_list (map (\<lambda>keyword.
         (if keyword \<in> set words then 1 else 0) +
         sum_list (map (\<lambda>word.
             if js_includes word keyword \<or> js_includes keyword word then 1 / 2 else 0) words))
       category)"

definition severityScore :: "string list \<Rightarrow> string list \<Rightarrow> real" where
  \<comment> \<open>lines 671-676: 1 for a keyword that is a word of the text\<close>
  "severityScore words severity =
     sum_list (map (\<lambda>keyword. if keyword \<in> set words then 1 else 0) severity)"

definition fill_band :: "real list \<Rightarrow> nat \<Rightarrow> nat \<Rightarrow> real \<Rightarrow> real list" where
  \<comment> \<open>\<^verbatim>\<open>for (i = 0; i < n; i++) embedding[baseIdx + i] = v\<close>; every band lies inside
      the 384 cells\<close>
  "fill_band embedding baseIdx n v = fold (\<lambda>i e. e[baseIdx + i := v]) [0 ..< n] embedding"

definition category_bands :: "string list \<Rightarrow> real list \<Rightarrow> real list" where
  "category_bands words embedding =
     fold (\<lambda>(idx, category) e.
             fill_band e (idx * 30) 30 (categoryScore words category / (real (length category) + 1)))
       (zip [0 ..< length problemCategories] problemCategories) embedding"

definition severity_bands :: "string list \<Rightarrow> real list \<Rightarrow> real list" where
  "severity_bands words embedding =
     fold (\<lambda>(idx, severity) e.
             fill_band e (300 + idx * 20) 20
               (severityScore words severity / (real (length severity) + 1)))
       (zip [0 ..< length severityTerms] severityTerms) embedding"

definition hashed_words :: "string list \<Rightarrow> real list \<Rightarrow> real list" where
  "hashed_words words embedding =
     fold (\<lambda>word e.
             if length word > 3
             then (let position = simpleHash word mod 384
                   in e[position := e ! position + 1 / 10])
             else e)
       words embedding"

definition banded_embedding :: "string list \<Rightarrow> real list" where
  \<comment> \<open>the vector of lines 647-682: the topic bands, then the urgency bands\<close>
  "banded_embedding words = severity_bands words (category_bands words (replicate 384 0))"

definition raw_embedding :: "string \<Rightarrow> real list" where
  \<comment> \<open>the vector of lines 647-690, before it is normalised\<close>
  "raw_embedding text =
     (let words = embedding_words text
      in hashed_words words (banded_embedding words))"

definition magnitude_of :: "real list \<Rightarrow> real" where
  "magnitude_of embedding = sqrt (sum_list (map (\<lambda>val. val * val) embedding))"

definition normalize_embedding :: "real list \<Rightarrow> real list" where
  "normalize_embedding embedding =
     (let magnitude = magnitude_of embedding
      in if magnitude > 0 then map (\<lambda>val. val / magnitude) embedding else embedding)"

definition generateEmbedding :: "string \<Rightarrow> real list" where
  "generateEmbedding text = normalize_embedding (raw_embedding text)"

section \<open>Re-analysis run (handler of the discovery agent)\<close>

text \<open>
  The store holds the three tables the handler reads and writes. The handler is a function
  of the store before the request; it returns the store after it and the response.
  \<^item> \<open>gen_id n\<close> is the identifier the store generates (\<^verbatim>\<open>gen_random_uuid()\<close>) for the
    \<open>n\<close>-th problem row the run inserts.
  \<^item> \<open>title_of\<close> is generateClusterTitle. Its result depends on the key order and the
    inherited properties of a JavaScript object; the handler is stated for any such
    function.
  \<^item> An insert that violates a primary key fails, as in the store; the handler skips the
    cluster when the problem row fails (line 216) and ignores a failed link row. Deleting
    a problem row removes the link rows that refer to it (\<^verbatim>\<open>ON DELETE CASCADE\<close>).
  \<^item> The rows of \<^verbatim>\<open>agent_logs\<close> are left out, and so are failures of the store itself.
\<close>

record ProblemRow =
  p_id :: string
  p_title :: string
  p_description :: string
  p_cluster_id :: nat
  p_complaint_count :: nat
  p_priority_score :: int
  p_trend :: string
  p_keywords :: "string list"

record LinkRow =
  l_complaint_id :: string
  l_problem_id :: string
  l_confidence :: real

record Store =
  complaints_tbl :: "ComplaintRow list"
  problems_tbl :: "ProblemRow list"
  complaint_problems_tbl :: "LinkRow list"

datatype Response =
  NoComplaints
| Clustered "(string \<times> string \<times> nat) list" nat
| ServerError

definition nil_uuid :: string where
  "nil_uuid = ''00000000-0000-0000-0000-000000000000''"

definition pending :: "Store \<Rightarrow> ComplaintRow list" where
  \<comment> \<open>lines 153-157: the complaints with an embedding and status processing\<close>
  "pending s =
     filter (\<lambda>r. r_embedding r \<noteq> None \<and> r_status r = ''processing'') (complaints_tbl s)"

definition parse_complaint :: "ComplaintRow \<Rightarrow> Complaint" where
  "parse_complaint r =
     \<lparr> c_id = r_id r, c_cleaned_text = r_cleaned_text r,
       c_embedding = (case r_embedding r of Some e \<Rightarrow> e | None \<Rightarrow> []),
       c_location = r_location r \<rparr>"

definition delete_problems :: "Store \<Rightarrow> Store" where
  \<comment> \<open>line 192: \<^verbatim>\<open>delete().neq('id', '00000000-...')\<close>, with the cascade to the links\<close>
  "delete_problems s =
     (let deleted = filter (\<lambda>p. p_id p \<noteq> nil_uuid) (problems_tbl s)
      in s\<lparr> problems_tbl := filter (\<lambda>p. \<not> p_id p \<noteq> nil_uuid) (problems_tbl s),
            complaint_problems_tbl :=
              filter (\<lambda>l. l_problem_id l \<notin> set (map p_id deleted)) (complaint_problems_tbl s) \<rparr>)"

definition delete_links :: "Store \<Rightarrow> Store" where
  \<comment> \<open>lines 193-196: \<^verbatim>\<open>delete().neq('complaint_id', '00000000-...')\<close>\<close>
  "delete_links s =
     s\<lparr> complaint_problems_tbl :=
          filter (\<lambda>l. \<not> l_complaint_id l \<noteq> nil_uuid) (complaint_problems_tbl s) \<rparr>"

definition insert_link :: "LinkRow \<Rightarrow> Store \<Rightarrow> Store" where
  \<comment> \<open>the primary key of a link row is the pair of its two identifiers\<close>
  "insert_link l s =
     (if list_ex (\<lambda>l'. l_complaint_id l' = l_complaint_id l \<and> l_problem_id l' = l_problem_id l)
           (complaint_problems_tbl s)
      then s
      else s\<lparr> complaint_problems_tbl := complaint_problems_tbl s @ [l] \<rparr>)"

definition set_analyzed :: "string \<Rightarrow> Store \<Rightarrow> Store" where
  "set_analyzed cid s =
     s\<lparr> complaints_tbl :=
          map (\<lambda>r. if r_id r = cid then r\<lparr>r_status := ''analyzed''\<rparr> else r) (complaints_tbl s) \<rparr>"

definition link_member :: "string \<Rightarrow> Complaint \<Rightarrow> Store \<Rightarrow> Store" where
  \<comment> \<open>lines 221-232\<close>
  "link_member pid complaint s =
     set_analyzed (c_id complaint)
       (insert_link \<lparr> l_complaint_id = c_id complaint, l_problem_id = pid,
                      l_confidence = 8 / 10 \<rparr> s)"

definition new_problem :: "(Complaint list \<Rightarrow> string) \<Rightarrow> string \<Rightarrow> Cluster \<Rightarrow> ProblemRow" where
  \<comment> \<open>lines 205-212, with the column defaults of the table\<close>
  "new_problem title_of pid cluster =
     \<lparr> p_id = pid, p_title = title_of (complaints cluster), p_description = '''',
       p_cluster_id = cl_id cluster, p_complaint_count = length (complaints cluster),
       p_priority_score = 0, p_trend = ''stable'', p_keywords = [] \<rparr>"

definition store_cluster ::
  "(Complaint list \<Rightarrow> string) \<Rightarrow> (nat \<Rightarrow> string) \<Rightarrow> Cluster \<Rightarrow>
   Store \<times> (string \<times> string \<times> nat) list \<times> nat \<Rightarrow> Store \<times> (string \<times> string \<times> nat) list \<times> nat" where
  \<comment> \<open>the body of the loop of lines 200-239; \<open>n\<close> counts the inserts attempted\<close>
  "store_cluster title_of gen_id cluster acc =
     (case acc of (s, problemsCreated, n) \<Rightarrow>
        let problem = new_problem title_of (gen_id n) cluster
        in if list_ex (\<lambda>p. p_id p = p_id problem) (problems_tbl s)
           then (s, problemsCreated, Suc n)
           else (fold (link_member (p_id problem)) (complaints cluster)
                   (s\<lparr> problems_tbl := problems_tbl s @ [problem] \<rparr>),
                 problemsCreated @ [(p_id problem, p_title problem, length (complaints cluster))],
                 Suc n))"

definition discovery_agent ::
  "(Complaint list \<Rightarrow> string) \<Rightarrow> (nat \<Rightarrow> string) \<Rightarrow> (nat \<Rightarrow> nat) \<Rightarrow> Store \<Rightarrow> Store \<times> Response" where
  \<comment> \<open>lines 153-268: the early return of lines 161-180 comes before the deletes\<close>
  "discovery_agent title_of gen_id rnd s =
     (if pending s = [] then (s, NoComplaints)
      else let parsedComplaints = map parse_complaint (pending s)
           in case kMeansClustering rnd parsedComplaints (numClusters (length parsedComplaints)) of
                Inl e \<Rightarrow> (s, ServerError)
              | Inr clusters \<Rightarrow>
                  (case fold (store_cluster title_of gen_id) clusters
                          (delete_links (delete_problems s), [], 0) of
                     (s', problemsCreated, n) \<Rightarrow>
                       (s', Clustered problemsCreated (length parsedComplaints))))"

text \<open>Sample stores for the closed instances below.\<close>

definition plain_title :: "Complaint list \<Rightarrow> string" where
  "plain_title members = ''General Issues''"

definition sample_ids :: "nat \<Rightarrow> string" where
  "sample_ids n = replicate (Suc n) CHR ''p''"

definition old_problem :: ProblemRow where
  "old_problem = \<lparr> p_id = ''old'', p_title = ''Water Issues'', p_description = '''',
       p_cluster_id = 0, p_complaint_count = 1, p_priority_score = 40, p_trend = ''stable'',
       p_keywords = [''water''] \<rparr>"

definition analyzed_store :: Store where
  "analyzed_store =
     \<lparr> complaints_tbl = [sample_row ''a'' 0],
       problems_tbl = [old_problem],
       complaint_problems_tbl =
         [\<lparr> l_complaint_id = ''a'', l_problem_id = ''old'', l_confidence = 8 / 10 \<rparr>] \<rparr>"

definition processing_store :: Store where
  "processing_store =
     \<lparr> complaints_tbl =
         [sample_row ''a'' 0,
          (sample_row ''b'' 1000)\<lparr> r_status := ''processing'',
                                    r_embedding := Some [Some 1, Some 0] \<rparr>],
       problems_tbl = [old_problem],
       complaint_problems_tbl =
         [\<lparr> l_complaint_id = ''a'', l_problem_id = ''old'', l_confidence = 8 / 10 \<rparr>] \<rparr>"

section \<open>Properties of the Clustering Engine\<close>

definition cluster_members :: "Cluster list \<Rightarrow> Complaint list" where
  "cluster_members clusters = concat (map complaints clusters)"

lemma fold_best_index:
  "fst (fold (\<lambda>(idx, cluster). \<lambda>(bestCluster, bestSimilarity).
              let similarity = sim cluster
              in if num_less bestSimilarity similarity then (idx, similarity)
                 else (bestCluster, bestSimilarity)) ps acc)
   \<in> insert (fst acc) (fst ` set ps)"
proof (induction ps arbitrary: acc)
  case Nil
  then show ?case by simp
next
  case (Cons p ps)
  obtain idx cluster where p: "p = (idx, cluster)" by (cases p)
  obtain b s where acc: "acc = (b, s)" by (cases acc)
  show ?case
    using Cons.IH [of "(idx, sim cluster)"] Cons.IH [of "(b, s)"]
    by (auto simp: p acc Let_def)
qed

lemma best_cluster_bound:
  assumes "clusters \<noteq> []"
  shows "best_cluster clusters x < length clusters"
proof -
  have "best_cluster clusters x \<in> insert 0 (fst ` set (zip [0 ..< length clusters] clusters))"
    unfolding best_cluster_def
    using fold_best_index [of "\<lambda>cluster. cosineSimilarity (c_embedding x) (centroid cluster)"
        "zip [0 ..< length clusters] clusters" "(0, Some (- 1))"]
    by simp
  moreover have "fst ` set (zip [0 ..< length clusters] clusters) \<subseteq> {0 ..< length clusters}"
    by (auto dest: set_zip_leftD)
  ultimately show ?thesis using assms by auto
qed

lemma cluster_members_push:
  "i < length cs \<Longrightarrow>
   mset (cluster_members (cs[i := (cs ! i)\<lparr>complaints := complaints (cs ! i) @ [x]\<rparr>])) =
   mset (cluster_members cs) + {#x#}"
proof (induction cs arbitrary: i)
  case Nil
  then show ?case by simp
next
  case (Cons c cs)
  then show ?case by (cases i) (auto simp: cluster_members_def)
qed

lemma assign_ok:
  assumes "clusters \<noteq> []"
  obtains cs where "assign clusters x = Inr cs" and "length cs = length clusters"
    and "mset (cluster_members cs) = mset (cluster_members clusters) + {#x#}"
  using assms best_cluster_bound [OF assms, of x]
  by (simp add: assign_def Let_def cluster_members_push)

lemma assign_all_ok:
  "clusters \<noteq> [] \<Longrightarrow>
   \<exists>cs. assign_all clusters xs = Inr cs \<and> length cs = length clusters \<and>
        mset (cluster_members cs) = mset (cluster_members clusters) + mset xs"
proof (induction xs arbitrary: clusters)
  case Nil
  then show ?case by simp
next
  case (Cons x xs)
  from Cons.prems obtain cs1 where 1: "assign clusters x = Inr cs1"
    and l1: "length cs1 = length clusters"
    and m1: "mset (cluster_members cs1) = mset (cluster_members clusters) + {#x#}"
    by (rule assign_ok)
  from l1 Cons.prems have "cs1 \<noteq> []" by auto
  from Cons.IH [OF this] obtain cs where "assign_all cs1 xs = Inr cs"
    and "length cs = length cs1" and "mset (cluster_members cs) = mset (cluster_members cs1) + mset xs"
    by blast
  with 1 l1 m1 show ?case by simp
qed

lemma cluster_members_reset: "cluster_members (map (\<lambda>cluster. cluster\<lparr>complaints := []\<rparr>) clusters) = []"
  by (induction clusters) (auto simp: cluster_members_def)

lemma update_centroid_complaints:
  "complaints (snd (update_centroid d c)) = complaints c"
  by (simp add: update_centroid_def Let_def)

lemma cluster_members_update:
  "cluster_members (map (snd \<circ> update_centroid d) cs) = cluster_members cs"
  by (simp add: cluster_members_def update_centroid_complaints comp_def)

lemma round_ok:
  assumes "clusters \<noteq> []"
  obtains assigned where
    "assign_all (map (\<lambda>cluster. cluster\<lparr>complaints := []\<rparr>) clusters) xs = Inr assigned"
    and "length assigned = length clusters" and "mset (cluster_members assigned) = mset xs"
proof -
  let ?r = "map (\<lambda>cluster. cluster\<lparr>complaints := []\<rparr>) clusters"
  have "?r \<noteq> []" using assms by simp
  from assign_all_ok [OF this, of xs] show ?thesis
    using that by (auto simp: cluster_members_reset)
qed

lemma iterate_ok:
  "clusters \<noteq> [] \<Longrightarrow>
   \<exists>cs. iterate (Suc n) d xs clusters = Inr cs \<and> length cs = length clusters \<and>
        mset (cluster_members cs) = mset xs"
proof (induction n arbitrary: clusters)
  case 0
  from round_ok [OF 0, of xs] obtain assigned where
    "assign_all (map (\<lambda>cluster. cluster\<lparr>complaints := []\<rparr>) clusters) xs = Inr assigned"
    "length assigned = length clusters" "mset (cluster_members assigned) = mset xs"
    by blast
  then show ?case by (simp add: Let_def cluster_members_update)
next
  case (Suc n)
  from round_ok [OF Suc.prems, of xs] obtain assigned where a:
    "assign_all (map (\<lambda>cluster. cluster\<lparr>complaints := []\<rparr>) clusters) xs = Inr assigned"
    "length assigned = length clusters" "mset (cluster_members assigned) = mset xs"
    by blast
  let ?u = "map snd (map (update_centroid d) assigned)"
  have "?u \<noteq> []" using a(2) Suc.prems by auto
  from Suc.IH [OF this] obtain cs where
    "iterate (Suc n) d xs ?u = Inr cs" "length cs = length ?u" "mset (cluster_members cs) = mset xs"
    by blast
  with a show ?case
    by (subst iterate.simps) (simp add: Let_def cluster_members_update)
qed

lemma cluster_members_filter: "cluster_members (filter (\<lambda>c. complaints c \<noteq> []) cs) = cluster_members cs"
  by (induction cs) (auto simp: cluster_members_def)

lemma length_init_clusters: "length (init_clusters rnd xs k) = nat k"
  by (simp add: init_clusters_def)

lemma kMeans_run:
  assumes "xs \<noteq> []" and "1 \<le> k"
  obtains final where
    "kMeansClustering rnd xs k = Inr (filter (\<lambda>c. complaints c \<noteq> []) final)"
    and "length final = nat (capped_k k xs)" and "mset (cluster_members final) = mset xs"
proof -
  let ?k = "capped_k k xs"
  let ?init = "init_clusters rnd xs ?k"
  have "1 \<le> ?k" using assms by (cases xs; simp add: capped_k_def)
  then have "?init \<noteq> []" using length_init_clusters [of rnd xs ?k] by auto
  from iterate_ok [OF this, of 19 "length (c_embedding (xs ! 0))" xs]
  obtain final where f: "iterate maxIterations (length (c_embedding (xs ! 0))) xs ?init = Inr final"
    and l: "length final = length ?init" and m: "mset (cluster_members final) = mset xs"
    by (auto simp: maxIterations_def eval_nat_numeral)
  have "kMeansClustering rnd xs k = Inr (filter (\<lambda>c. complaints c \<noteq> []) final)"
    using assms(1) f by (simp add: kMeansClustering_def Let_def)
  with l m that show ?thesis by (simp add: length_init_clusters)
qed

text \<open>
  Claim C1. For every non-empty list of complaints, every cluster count \<open>k\<close> (a count
  is at least 1; the handler passes 3 to 8) and every outcome of the random seeding,
  kMeansClustering returns (it does not throw), it returns at most \<open>k\<close> clusters, none of
  them empty, and the members of the returned clusters are exactly the input complaints,
  each one once.
\<close>

theorem kMeans_partition:
  assumes "xs \<noteq> []" and "1 \<le> k"
  shows "\<exists>cs. kMeansClustering rnd xs k = Inr cs \<and> int (length cs) \<le> k \<and>
           list_all (\<lambda>c. complaints c \<noteq> []) cs \<and>
           mset (concat (map complaints cs)) = mset xs"
proof -
  from kMeans_run [where rnd = rnd, OF assms] obtain final where
    r: "kMeansClustering rnd xs k = Inr (filter (\<lambda>c. complaints c \<noteq> []) final)"
    and l: "length final = nat (capped_k k xs)" and m: "mset (cluster_members final) = mset xs"
    by blast
  let ?cs = "filter (\<lambda>c. complaints c \<noteq> []) final"
  have "capped_k k xs \<le> k" by (simp add: capped_k_def)
  moreover have "length ?cs \<le> length final" by simp
  ultimately have "int (length ?cs) \<le> k" using l assms(2) by linarith
  moreover have "list_all (\<lambda>c. complaints c \<noteq> []) ?cs" by (simp add: list_all_iff)
  moreover have "mset (concat (map complaints ?cs)) = mset xs"
    using m cluster_members_filter [of final] by (simp add: cluster_members_def)
  ultimately show ?thesis using r by simp
qed

theorem kMeans_partition_witness:
  "[sample_water, sample_road] \<noteq> [] \<and> (1::int) \<le> 2 \<and>
   (\<exists>cs. kMeansClustering always_first [sample_water, sample_road] 2 = Inr cs \<and>
      int (length cs) \<le> 2 \<and> list_all (\<lambda>c. complaints c \<noteq> []) cs \<and>
      mset (concat (map complaints cs)) = mset [sample_water, sample_road])"
  using kMeans_partition [of "[sample_water, sample_road]" 2 always_first] by simp

lemma ceiling_third: "\<lceil>real n / 3\<rceil> = int ((n + 2) div 3)"
proof -
  let ?q = "(n + 2) div 3"
  have 1: "n \<le> 3 * ?q" and 2: "3 * ?q < n + 3" by presburger+
  have "real n \<le> real (3 * ?q)" using 1 by (rule of_nat_mono)
  moreover have "real (3 * ?q) < real (n + 3)" using 2 by (simp only: of_nat_less_iff)
  ultimately show ?thesis
    by (intro ceiling_unique) simp_all
qed

text \<open>
  Claim C7. For every number \<open>n \<ge> 1\<close> of input complaints, the cluster count the
  handler passes on, capped by kMeansClustering at the number of complaints, is
  \<open>min (min (max 3 (ceil (n / 3))) 8) n\<close>; it is also the number of centroids seeded.
\<close>

theorem cluster_count_selection:
  assumes "1 \<le> n" and "length xs = n"
  shows "capped_k (numClusters n) xs = min (min (max 3 \<lceil>real n / 3\<rceil>) 8) (int n) \<and>
         \<lceil>real n / 3\<rceil> = int ((n + 2) div 3) \<and>
         int (length (init_clusters rnd xs (capped_k (numClusters n) xs))) =
           min (min (max 3 \<lceil>real n / 3\<rceil>) 8) (int n)"
proof -
  have k: "capped_k (numClusters n) xs = min (min (max 3 \<lceil>real n / 3\<rceil>) 8) (int n)"
    using assms(2) by (simp add: capped_k_def numClusters_def)
  have "0 \<le> min (min (max 3 \<lceil>real n / 3\<rceil>) 8) (int n)" by simp
  with k ceiling_third [of n] show ?thesis by (simp add: length_init_clusters)
qed

lemma sample_k: "capped_k (numClusters 2) [sample_water, sample_road] = 2"
  by (simp add: capped_k_def numClusters_def)

theorem cluster_count_selection_witness:
  "(1::nat) \<le> 2 \<and> length [sample_water, sample_road] = 2 \<and>
   capped_k (numClusters 2) [sample_water, sample_road] = 2 \<and>
   int (length (init_clusters always_first [sample_water, sample_road]
                  (capped_k (numClusters 2) [sample_water, sample_road]))) = 2"
  using cluster_count_selection [of 2 "[sample_water, sample_road]" always_first]
  by (simp add: sample_k length_init_clusters)

section \<open>Properties of the re-analysis run\<close>

lemma link_member_problems: "problems_tbl (link_member pid c s) = problems_tbl s"
  by (simp add: link_member_def set_analyzed_def insert_link_def)

lemma fold_link_member_problems:
  "problems_tbl (fold (link_member pid) cs s) = problems_tbl s"
  by (induction cs arbitrary: s) (simp_all add: link_member_problems)

lemma link_member_links:
  "set (complaint_problems_tbl (link_member pid c s)) \<subseteq>
   insert \<lparr> l_complaint_id = c_id c, l_problem_id = pid, l_confidence = 8 / 10 \<rparr>
     (set (complaint_problems_tbl s))"
  by (auto simp: link_member_def set_analyzed_def insert_link_def)

lemma fold_link_member_links:
  "l \<in> set (complaint_problems_tbl (fold (link_member pid) cs s)) \<Longrightarrow>
   l \<in> set (complaint_problems_tbl s) \<or> l_problem_id l = pid"
proof (induction cs arbitrary: s)
  case Nil
  then show ?case by simp
next
  case (Cons c cs)
  from Cons.IH [of "link_member pid c s"] Cons.prems
  have "l \<in> set (complaint_problems_tbl (link_member pid c s)) \<or> l_problem_id l = pid" by simp
  with link_member_links [of pid c s] show ?case by auto
qed

definition from_run :: "(Complaint list \<Rightarrow> string) \<Rightarrow> Cluster list \<Rightarrow> Store \<Rightarrow> bool" where
  "from_run title_of clusters s \<longleftrightarrow>
     list_all (\<lambda>p. list_ex (\<lambda>c. \<exists>pid. p = new_problem title_of pid c) clusters) (problems_tbl s) \<and>
     list_all (\<lambda>l. list_ex (\<lambda>p. p_id p = l_problem_id l) (problems_tbl s))
       (complaint_problems_tbl s)"

lemma store_cluster_from_run:
  assumes "from_run title_of clusters s" and "c \<in> set clusters"
  shows "from_run title_of clusters (fst (store_cluster title_of gen_id c (s, created, n)))"
proof (cases "list_ex (\<lambda>p. p_id p = gen_id n) (problems_tbl s)")
  case True
  then show ?thesis using assms(1) by (simp add: store_cluster_def new_problem_def Let_def)
next
  case False
  let ?p = "new_problem title_of (gen_id n) c"
  let ?s1 = "s\<lparr> problems_tbl := problems_tbl s @ [?p] \<rparr>"
  let ?s2 = "fold (link_member (gen_id n)) (complaints c) ?s1"
  have r: "fst (store_cluster title_of gen_id c (s, created, n)) = ?s2"
    using False by (simp add: store_cluster_def new_problem_def Let_def)
  have p: "problems_tbl ?s2 = problems_tbl s @ [?p]"
    by (simp add: fold_link_member_problems)
  have 1: "list_all (\<lambda>p. list_ex (\<lambda>c. \<exists>pid. p = new_problem title_of pid c) clusters)
             (problems_tbl ?s2)"
    using assms by (auto simp: p from_run_def list_all_iff list_ex_iff)
  have 2: "list_all (\<lambda>l. list_ex (\<lambda>p. p_id p = l_problem_id l) (problems_tbl ?s2))
             (complaint_problems_tbl ?s2)"
    unfolding list_all_iff
  proof
    fix l assume "l \<in> set (complaint_problems_tbl ?s2)"
    from fold_link_member_links [OF this]
    have "l \<in> set (complaint_problems_tbl s) \<or> l_problem_id l = gen_id n" by simp
    moreover have "p_id ?p = gen_id n" by (simp add: new_problem_def)
    ultimately show "list_ex (\<lambda>p. p_id p = l_problem_id l) (problems_tbl ?s2)"
      unfolding p using assms(1) by (auto simp: from_run_def list_all_iff list_ex_iff)
  qed
  from 1 2 r show ?thesis by (simp add: from_run_def)
qed

lemma fold_store_cluster_from_run:
  "from_run title_of clusters s \<Longrightarrow> set cs \<subseteq> set clusters \<Longrightarrow>
   from_run title_of clusters (fst (fold (store_cluster title_of gen_id) cs (s, created, n)))"
proof (induction cs arbitrary: s created n)
  case Nil
  then show ?case by simp
next
  case (Cons c cs)
  obtain s1 created1 n1 where st: "store_cluster title_of gen_id c (s, created, n) = (s1, created1, n1)"
    by (cases "store_cluster title_of gen_id c (s, created, n)") auto
  have "from_run title_of clusters s1"
    using store_cluster_from_run [of title_of clusters s c gen_id created n] Cons.prems st by simp
  from Cons.IH [OF this, of created1 n1] Cons.prems(2) st show ?case by simp
qed

lemma deletes_empty:
  assumes "list_all (\<lambda>p. p_id p \<noteq> nil_uuid) (problems_tbl s)"
    and "list_all (\<lambda>l. l_complaint_id l \<noteq> nil_uuid) (complaint_problems_tbl s)"
  shows "problems_tbl (delete_links (delete_problems s)) = []"
    and "complaint_problems_tbl (delete_links (delete_problems s)) = []"
    and "complaints_tbl (delete_links (delete_problems s)) = complaints_tbl s"
  using assms
  by (auto simp: delete_links_def delete_problems_def Let_def list_all_iff filter_empty_conv)

lemma numClusters_ge: "1 \<le> numClusters n"
  by (simp add: numClusters_def)

text \<open>
  Claim C2 (as amended). An invocation that finds no complaint with status processing
  and a fingerprint returns early and leaves every table as it is. An invocation that
  finds at least one, on a store whose problem and link rows do not carry the all-zero
  identifier that the delete filters spare, clusters the complaints, deletes the old rows
  and completes with these tables: every problem row is the row inserted for one of the
  clusters of this run, and every link row points to one of these problem rows.
\<close>

theorem reanalysis_replaces_problems:
  "(pending s = [] \<longrightarrow> discovery_agent title_of gen_id rnd s = (s, NoComplaints)) \<and>
   (pending s \<noteq> [] \<and> list_all (\<lambda>p. p_id p \<noteq> nil_uuid) (problems_tbl s) \<and>
    list_all (\<lambda>l. l_complaint_id l \<noteq> nil_uuid) (complaint_problems_tbl s) \<longrightarrow>
    (\<exists>clusters created.
       kMeansClustering rnd (map parse_complaint (pending s)) (numClusters (length (pending s)))
         = Inr clusters \<and>
       snd (discovery_agent title_of gen_id rnd s) = Clustered created (length (pending s)) \<and>
       list_all (\<lambda>p. list_ex (\<lambda>c. \<exists>pid. p = new_problem title_of pid c) clusters)
         (problems_tbl (fst (discovery_agent title_of gen_id rnd s))) \<and>
       list_all (\<lambda>l. list_ex (\<lambda>p. p_id p = l_problem_id l)
                   (problems_tbl (fst (discovery_agent title_of gen_id rnd s))))
         (complaint_problems_tbl (fst (discovery_agent title_of gen_id rnd s)))))"
proof (intro conjI impI)
  assume "pending s = []"
  then show "discovery_agent title_of gen_id rnd s = (s, NoComplaints)"
    by (simp add: discovery_agent_def)
next
  assume a: "pending s \<noteq> [] \<and> list_all (\<lambda>p. p_id p \<noteq> nil_uuid) (problems_tbl s) \<and>
    list_all (\<lambda>l. l_complaint_id l \<noteq> nil_uuid) (complaint_problems_tbl s)"
  let ?xs = "map parse_complaint (pending s)"
  have "?xs \<noteq> []" using a by simp
  from kMeans_run [where rnd = rnd and k = "numClusters (length (pending s))",
      OF this numClusters_ge]
  obtain final where k: "kMeansClustering rnd ?xs (numClusters (length (pending s))) =
      Inr (filter (\<lambda>c. complaints c \<noteq> []) final)"
    by blast
  let ?clusters = "filter (\<lambda>c. complaints c \<noteq> []) final"
  let ?s0 = "delete_links (delete_problems s)"
  obtain s' created n where f:
    "fold (store_cluster title_of gen_id) ?clusters (?s0, [], 0) = (s', created, n)"
    by (cases "fold (store_cluster title_of gen_id) ?clusters (?s0, [], 0)") auto
  have d: "discovery_agent title_of gen_id rnd s = (s', Clustered created (length (pending s)))"
    using a k f by (simp add: discovery_agent_def Let_def)
  have "from_run title_of ?clusters ?s0"
    using a deletes_empty [of s] by (simp add: from_run_def)
  from fold_store_cluster_from_run [OF this subset_refl, of gen_id "[]" 0] f
  have "from_run title_of ?clusters s'" by simp
  with k d show "\<exists>clusters created.
       kMeansClustering rnd ?xs (numClusters (length (pending s))) = Inr clusters \<and>
       snd (discovery_agent title_of gen_id rnd s) = Clustered created (length (pending s)) \<and>
       list_all (\<lambda>p. list_ex (\<lambda>c. \<exists>pid. p = new_problem title_of pid c) clusters)
         (problems_tbl (fst (discovery_agent title_of gen_id rnd s))) \<and>
       list_all (\<lambda>l. list_ex (\<lambda>p. p_id p = l_problem_id l)
                   (problems_tbl (fst (discovery_agent title_of gen_id rnd s))))
         (complaint_problems_tbl (fst (discovery_agent title_of gen_id rnd s)))"
    by (auto simp: from_run_def)
qed

lemma pending_analyzed: "pending analyzed_store = []"
  by (simp add: pending_def analyzed_store_def sample_row_def)

lemma pending_processing: "pending processing_store \<noteq> []"
  by (simp add: pending_def processing_store_def sample_row_def)

lemma processing_no_nil:
  "list_all (\<lambda>p. p_id p \<noteq> nil_uuid) (problems_tbl processing_store)"
  "list_all (\<lambda>l. l_complaint_id l \<noteq> nil_uuid) (complaint_problems_tbl processing_store)"
  by (simp_all add: processing_store_def old_problem_def nil_uuid_def)

theorem reanalysis_replaces_problems_witness:
  "pending analyzed_store = [] \<and>
   discovery_agent plain_title sample_ids always_first analyzed_store =
     (analyzed_store, NoComplaints) \<and>
   pending processing_store \<noteq> [] \<and>
   list_all (\<lambda>p. p_id p \<noteq> nil_uuid) (problems_tbl processing_store) \<and>
   list_all (\<lambda>l. l_complaint_id l \<noteq> nil_uuid) (complaint_problems_tbl processing_store) \<and>
   (\<exists>clusters created.
       kMeansClustering always_first (map parse_complaint (pending processing_store))
           (numClusters (length (pending processing_store))) = Inr clusters \<and>
       snd (discovery_agent plain_title sample_ids always_first processing_store) =
         Clustered created (length (pending processing_store)) \<and>
       list_all (\<lambda>p. list_ex (\<lambda>c. \<exists>pid. p = new_problem plain_title pid c) clusters)
         (problems_tbl (fst (discovery_agent plain_title sample_ids always_first processing_store))) \<and>
       list_all (\<lambda>l. list_ex (\<lambda>p. p_id p = l_problem_id l)
                   (problems_tbl (fst (discovery_agent plain_title sample_ids always_first
                      processing_store))))
         (complaint_problems_tbl (fst (discovery_agent plain_title sample_ids always_first
            processing_store))))"
  using reanalysis_replaces_problems [of analyzed_store plain_title sample_ids always_first]
    reanalysis_replaces_problems [of processing_store plain_title sample_ids always_first]
    pending_analyzed pending_processing processing_no_nil
  by blast

text \<open>
  After a first run every complaint is analyzed, so a second invocation finds nothing to
  cluster and the problem rows of the first run stay.
\<close>

theorem reanalysis_early_return_counterexample:
  "snd (discovery_agent plain_title sample_ids always_first analyzed_store) = NoComplaints \<and>
   old_problem \<in> set (problems_tbl
     (fst (discovery_agent plain_title sample_ids always_first analyzed_store)))"
  by (simp add: discovery_agent_def pending_analyzed) (simp add: analyzed_store_def)

section \<open>Properties of the Priority Scorer\<close>

lemma severity_range:
  assumes "cs \<noteq> []"
  obtains s where "calculateSeverityScore cs = Some s" and "0 \<le> s" and "s \<le> 10"
proof -
  have "real (length cs) \<noteq> 0" using assms by simp
  then show ?thesis
    using that by (simp add: calculateSeverityScore_def Let_def num_div_def num_min_def)
qed

lemma recency_weight_pos: "0 \<le> recency_weight now c"
  by (simp add: recency_weight_def Let_def)

lemma recency_range:
  assumes "cs \<noteq> []"
  obtains r where "calculateRecencyScore now cs = Some r" and "0 \<le> r"
proof -
  have "real (length cs) \<noteq> 0" using assms by simp
  moreover have "0 \<le> sum_list (map (recency_weight now) cs)"
    by (rule sum_list_nonneg) (auto simp: recency_weight_pos)
  ultimately show ?thesis
    using that by (simp add: calculateRecencyScore_def num_div_def)
qed

lemma num_add_None: "num_add x None = None"
  by (simp add: num_add_def split: option.split)

lemma count_location_finite:
  assumes "l \<notin> set inherited_keys"
    and "\<forall>v \<in> snd ` set m. \<exists>a. v = Some a \<and> 1 \<le> a"
  shows "\<forall>v \<in> snd ` set (count_location l m). \<exists>a. v = Some a \<and> 1 \<le> a"
proof -
  let ?f = "\<lambda>(key, val). if key = l then (key, num_add val (Some 1)) else (key, val)"
  have "\<forall>p \<in> set m. \<exists>a. snd (?f p) = Some a \<and> 1 \<le> a"
  proof
    fix p assume p: "p \<in> set m"
    obtain key w where kw: "p = (key, w)" by (cases p)
    with p assms(2) obtain a where "w = Some a" "1 \<le> a" by force
    then show "\<exists>a. snd (?f p) = Some a \<and> 1 \<le> a" by (simp add: kw num_add_def)
  qed
  then have "\<forall>v \<in> snd ` set (map ?f m). \<exists>a. v = Some a \<and> 1 \<le> a" by simp
  then show ?thesis
    using assms unfolding count_location_def by (simp split: if_splits)
qed

lemma location_map_finite:
  assumes "\<forall>c \<in> set cs. r_location c \<notin> set inherited_keys"
    and "\<forall>v \<in> snd ` set m. \<exists>a. v = Some a \<and> 1 \<le> a"
  shows "\<forall>v \<in> snd ` set (fold (\<lambda>complaint m.
            if r_location complaint \<noteq> [] then count_location (r_location complaint) m
            else m) cs m). \<exists>a. v = Some a \<and> 1 \<le> a"
  using assms
proof (induction cs arbitrary: m)
  case Nil
  then show ?case by simp
next
  case (Cons c cs)
  let ?m = "if r_location c \<noteq> [] then count_location (r_location c) m else m"
  have "\<forall>v \<in> snd ` set ?m. \<exists>a. v = Some a \<and> 1 \<le> a"
    using Cons.prems count_location_finite [of "r_location c" m] by simp
  with Cons.IH [of ?m] Cons.prems(1) show ?case by simp
qed

lemma fold_num_max_finite:
  "\<forall>v \<in> set vs. \<exists>a. v = Some a \<and> 1 \<le> a \<Longrightarrow> 1 \<le> b \<Longrightarrow>
   \<exists>a. fold num_max vs (Some b) = Some a \<and> 1 \<le> a"
proof (induction vs arbitrary: b)
  case Nil
  then show ?case by simp
next
  case (Cons v vs)
  then obtain a where a: "v = Some a" "1 \<le> a" by auto
  have "1 \<le> max a b" using a by simp
  with Cons.IH [of "max a b"] Cons.prems(1) a show ?case by (simp add: num_max_def)
qed

lemma location_range:
  assumes "\<forall>c \<in> set cs. r_location c \<notin> set inherited_keys"
  obtains d where "calculateLocationDensity cs = Some d" and "0 \<le> d"
proof -
  let ?m = "fold (\<lambda>complaint m.
            if r_location complaint \<noteq> [] then count_location (r_location complaint) m
            else m) cs []"
  have "\<forall>v \<in> snd ` set ?m. \<exists>a. v = Some a \<and> 1 \<le> a"
    using location_map_finite [OF assms, of "[]"] by simp
  then have "\<forall>v \<in> set (map snd ?m). \<exists>a. v = Some a \<and> 1 \<le> a" by simp
  from fold_num_max_finite [OF this, of 1]
  obtain a where a: "fold num_max (map snd ?m) (Some 1) = Some a" "1 \<le> a" by auto
  then have "0 \<le> log 10 (a + 1)" by simp
  with a that show ?thesis
    by (simp add: calculateLocationDensity_def Let_def num_add_def num_log10_def num_mul_def)
qed

lemma round_range:
  assumes "0 \<le> x"
  shows "0 \<le> \<lfloor>min x 100 + 1 / 2\<rfloor>" and "\<lfloor>min x (100::real) + 1 / 2\<rfloor> \<le> 100"
proof -
  show "0 \<le> \<lfloor>min x 100 + 1 / 2\<rfloor>" using assms by simp
  have "min x 100 + 1 / 2 < 101" by simp
  then show "\<lfloor>min x 100 + 1 / 2\<rfloor> \<le> 100" by (simp add: floor_le_iff)
qed

lemma priority_score_value:
  assumes "cs \<noteq> []" and "\<forall>c \<in> set cs. r_location c \<notin> set inherited_keys"
  obtains r :: int where "calculatePriorityScore (priority_factors now cs) = Some (real_of_int r)"
    and "0 \<le> r" and "r \<le> 100"
proof -
  obtain s where s: "calculateSeverityScore cs = Some s" "0 \<le> s"
    using severity_range [OF assms(1)] by blast
  obtain r where r: "calculateRecencyScore now cs = Some r" "0 \<le> r"
    using recency_range [OF assms(1)] by blast
  obtain d where d: "calculateLocationDensity cs = Some d" "0 \<le> d"
    using location_range [OF assms(2)] by blast
  let ?score = "min (real (length cs) / 10) 1 * 100 * (4 / 10) + s * 10 * (35 / 100) +
                r * 10 * (15 / 100) + d * 10 * (1 / 10)"
  have v: "calculatePriorityScore (priority_factors now cs) =
           Some (real_of_int \<lfloor>min ?score 100 + 1 / 2\<rfloor>)"
    by (simp add: calculatePriorityScore_def priority_factors_def s r d Let_def
        num_add_def num_mul_def num_div_def num_min_def num_round_def)
  have "0 \<le> min (real (length cs) / 10) 1 * 100 * (4 / 10)" by simp
  moreover have "0 \<le> s * 10 * (35 / 100)" "0 \<le> r * 10 * (15 / 100)" "0 \<le> d * 10 * (1 / 10)"
    using s r d by simp_all
  ultimately have "0 \<le> ?score" by linarith
  from round_range [OF this] v that show ?thesis by blast
qed

text \<open>
  As long as no location is the name of an inherited method, the handler either computes
  no score (the list is empty and the problem is skipped) or the score is an integer
  between 0 and 100.
\<close>

lemma priority_score_plain_locations:
  assumes "\<forall>c \<in> set cs. r_location c \<notin> set inherited_keys"
  shows "case score_problem now cs of
           None \<Rightarrow> cs = []
         | Some score \<Rightarrow> (\<exists>r::int. score = Some (real_of_int r) \<and> 0 \<le> r \<and> r \<le> 100)"
proof (cases "cs = []")
  case True
  then show ?thesis by (simp add: score_problem_def)
next
  case False
  from priority_score_value [OF this assms, of now] obtain r :: int where
    "calculatePriorityScore (priority_factors now cs) = Some (real_of_int r)" "0 \<le> r" "r \<le> 100"
    by blast
  with False show ?thesis by (auto simp: score_problem_def)
qed

lemma location_density_constructor: "calculateLocationDensity [constructor_row] = None"
  by (simp add: calculateLocationDensity_def constructor_row_def count_location_def
      inherited_keys_def num_max_def num_add_def num_log10_def num_mul_def)

text \<open>
  Claim C3. The composite priority score should be an integer between 0 and 100 for every
  list of linked complaints. For a problem whose one complaint has the location
  constructor the handler does compute a score, and the score is NaN: the location count
  is a string, so \<^verbatim>\<open>Math.max\<close>, the density, the weighted sum, \<^verbatim>\<open>Math.min\<close> and
  \<^verbatim>\<open>Math.round\<close> all yield NaN.
\<close>

theorem priority_score_nan_on_inherited_key:
  "score_problem now [constructor_row] = Some None \<and>
   calculatePriorityScore (priority_factors now [constructor_row]) = None"
proof -
  have "calculatePriorityScore (priority_factors now [constructor_row]) = None"
    by (simp add: calculatePriorityScore_def priority_factors_def location_density_constructor
        Let_def num_mul_def num_add_None num_min_def num_round_def)
  then show ?thesis by (simp add: score_problem_def)
qed

subsection \<open>Trend\<close>

text \<open>
  The quantities the trend rule is stated in: the complaints sorted by creation time and
  split at the midpoint, the ratio of the sizes of the halves, the gap between the
  average timestamps of the halves, and half the time elapsed since the earliest complaint.
\<close>

definition by_time :: "ComplaintRow list \<Rightarrow> ComplaintRow list" where
  "by_time cs = sort_key r_created_at cs"

definition first_half :: "ComplaintRow list \<Rightarrow> ComplaintRow list" where
  "first_half cs = take (length cs div 2) (by_time cs)"

definition second_half :: "ComplaintRow list \<Rightarrow> ComplaintRow list" where
  "second_half cs = drop (length cs div 2) (by_time cs)"

definition growth_ratio :: "ComplaintRow list \<Rightarrow> real" where
  "growth_ratio cs = real (length (second_half cs)) / real (length (first_half cs))"

definition actual_gap :: "ComplaintRow list \<Rightarrow> real" where
  "actual_gap cs = avg_time (second_half cs) - avg_time (first_half cs)"

definition expected_gap :: "int \<Rightarrow> ComplaintRow list \<Rightarrow> real" where
  "expected_gap now cs = real_of_int (now - Min (r_created_at ` set cs)) / 2"

lemma growth_ge_1:
  assumes "2 \<le> (n::nat)"
  shows "1 \<le> real (n - n div 2) / real (n div 2)"
proof -
  have "0 < n div 2" and "n div 2 \<le> n - n div 2" using assms by presburger+
  then have "0 < real (n div 2)" and "real (n div 2) \<le> real (n - n div 2)"
    by (simp_all only: of_nat_0_less_iff of_nat_le_iff)
  then show ?thesis by (simp only: le_divide_eq_1_pos)
qed

lemma min_half: "min n (n div 2) = (n div 2 :: nat)"
  by simp

lemma earliest_first:
  assumes "cs \<noteq> []"
  shows "r_created_at (sort_key r_created_at cs ! 0) = Min (r_created_at ` set cs)"
proof -
  let ?s = "sort_key r_created_at cs"
  have ne: "?s \<noteq> []" using assms by (metis length_0_conv length_sort)
  then obtain y ys where s: "?s = y # ys" by (cases ?s) auto
  have "sorted (map r_created_at ?s)" by (rule sorted_sort_key)
  with s have le: "\<forall>z \<in> set ?s. r_created_at y \<le> r_created_at z" by auto
  have mem: "y \<in> set cs" using s by (metis list.set_intros(1) set_sort)
  have "Min (r_created_at ` set cs) = r_created_at y"
  proof (rule Min_eqI)
    show "finite (r_created_at ` set cs)" by simp
    show "r_created_at y \<in> r_created_at ` set cs" using mem by simp
    fix t assume "t \<in> r_created_at ` set cs"
    then show "r_created_at y \<le> t" using le by auto
  qed
  with s show ?thesis by simp
qed

lemma determineTrend_unfold:
  assumes "2 \<le> length cs"
  shows "determineTrend now cs =
     (if growth_ratio cs > 13 / 10 \<and> actual_gap cs < expected_gap now cs * (7 / 10) then ''rising''
      else if growth_ratio cs < 7 / 10 then ''falling'' else ''stable'')"
proof -
  have "cs \<noteq> []" using assms by auto
  from earliest_first [OF this] assms show ?thesis
    unfolding determineTrend_def Let_def growth_ratio_def actual_gap_def expected_gap_def
      first_half_def second_half_def by_time_def
    by (simp add: min_half)
qed

text \<open>
  Claim C4. determineTrend returns stable on fewer than two complaints. On two or more it
  returns rising exactly when the growth ratio exceeds 1.3 and the gap between the halves'
  average timestamps is below 0.7 times half the time elapsed since the earliest
  complaint, falling exactly when the growth ratio is below 0.7, and stable otherwise.
\<close>

theorem trend_classification:
  "(length cs < 2 \<longrightarrow> determineTrend now cs = ''stable'') \<and>
   (2 \<le> length cs \<longrightarrow>
      (determineTrend now cs = ''rising'' \<longleftrightarrow>
         growth_ratio cs > 13 / 10 \<and> actual_gap cs < 7 / 10 * expected_gap now cs) \<and>
      (determineTrend now cs = ''falling'' \<longleftrightarrow> growth_ratio cs < 7 / 10) \<and>
      (determineTrend now cs = ''stable'' \<longleftrightarrow>
         \<not> (growth_ratio cs > 13 / 10 \<and> actual_gap cs < 7 / 10 * expected_gap now cs) \<and>
         \<not> growth_ratio cs < 7 / 10))"
proof (intro conjI impI)
  assume "length cs < 2"
  then show "determineTrend now cs = ''stable''" by (simp add: determineTrend_def)
next
  assume "2 \<le> length cs"
  note u = determineTrend_unfold [OF this, of now]
  show "determineTrend now cs = ''rising'' \<longleftrightarrow>
         growth_ratio cs > 13 / 10 \<and> actual_gap cs < 7 / 10 * expected_gap now cs"
    by (simp add: u mult.commute)
  show "determineTrend now cs = ''falling'' \<longleftrightarrow> growth_ratio cs < 7 / 10"
    by (simp add: u)
  show "determineTrend now cs = ''stable'' \<longleftrightarrow>
         \<not> (growth_ratio cs > 13 / 10 \<and> actual_gap cs < 7 / 10 * expected_gap now cs) \<and>
         \<not> growth_ratio cs < 7 / 10"
    by (simp add: u mult.commute)
qed

lemma sample_sorted:
  "sort_key r_created_at [sample_row ''a'' 0, sample_row ''b'' 1000, sample_row ''c'' 2000] =
   [sample_row ''a'' 0, sample_row ''b'' 1000, sample_row ''c'' 2000]"
  by (simp add: sample_row_def)

lemma sample_trend_rising:
  "determineTrend 100000 [sample_row ''a'' 0, sample_row ''b'' 1000, sample_row ''c'' 2000] = ''rising''"
  by (simp add: determineTrend_def Let_def sample_sorted avg_time_def) (simp add: sample_row_def)

theorem trend_classification_witness:
  "length [sample_row ''a'' 0] < 2 \<and> determineTrend 100000 [sample_row ''a'' 0] = ''stable'' \<and>
   2 \<le> length [sample_row ''a'' 0, sample_row ''b'' 1000, sample_row ''c'' 2000] \<and>
   growth_ratio [sample_row ''a'' 0, sample_row ''b'' 1000, sample_row ''c'' 2000] > 13 / 10 \<and>
   actual_gap [sample_row ''a'' 0, sample_row ''b'' 1000, sample_row ''c'' 2000]
     < 7 / 10 * expected_gap 100000 [sample_row ''a'' 0, sample_row ''b'' 1000, sample_row ''c'' 2000]"
  using trend_classification [of "[sample_row ''a'' 0]" 100000]
    trend_classification [of "[sample_row ''a'' 0, sample_row ''b'' 1000, sample_row ''c'' 2000]" 100000]
    sample_trend_rising
  by simp

text \<open>
  Claim C10. On two or more complaints determineTrend never returns falling: the second
  half has at least as many elements as the first, so the growth ratio is at least 1.
\<close>

theorem trend_never_falling:
  assumes "2 \<le> length cs"
  shows "determineTrend now cs \<noteq> ''falling''"
proof -
  have "\<not> real (length cs - length cs div 2) / real (length cs div 2) < 7 / 10"
    using growth_ge_1 [OF assms] by linarith
  then show ?thesis
    unfolding determineTrend_def Let_def by (simp add: min_half)
qed

theorem trend_never_falling_witness:
  "2 \<le> length [sample_row ''a'' 0, sample_row ''b'' 1000] \<and>
   determineTrend 100000 [sample_row ''a'' 0, sample_row ''b'' 1000] \<noteq> ''falling''"
  using trend_never_falling [of "[sample_row ''a'' 0, sample_row ''b'' 1000]" 100000] by simp

section \<open>Properties of the Fingerprint Generator\<close>

lemma length_fill_band: "length (fill_band e b n v) = length e"
proof -
  have "length (fold (\<lambda>i e. e[b + i := v]) is e) = length e" for "is"
    by (induction "is" arbitrary: e) auto
  then show ?thesis by (simp add: fill_band_def)
qed

lemma nth_fill_band_aux:
  "j < length e \<Longrightarrow>
   fold (\<lambda>i e. e[b + i := v]) is e ! j = (if j \<in> (\<lambda>i. b + i) ` set is then v else e ! j)"
proof (induction "is" arbitrary: e)
  case Nil
  then show ?case by simp
next
  case (Cons i "is")
  have "j < length (e[b + i := v])" using Cons.prems by simp
  from Cons.IH [OF this] Cons.prems show ?case
    by (auto simp: nth_list_update)
qed

lemma nth_fill_band:
  assumes "j < length e"
  shows "fill_band e b n v ! j = (if b \<le> j \<and> j < b + n then v else e ! j)"
proof -
  have "j \<in> (\<lambda>i. b + i) ` set [0 ..< n] \<longleftrightarrow> b \<le> j \<and> j < b + n"
  proof
    assume "j \<in> (\<lambda>i. b + i) ` set [0 ..< n]"
    then show "b \<le> j \<and> j < b + n" by auto
  next
    assume "b \<le> j \<and> j < b + n"
    then have "j = b + (j - b)" and "j - b < n" by auto
    then show "j \<in> (\<lambda>i. b + i) ` set [0 ..< n]" by (metis atLeast0LessThan image_eqI lessThan_iff set_upt)
  qed
  with nth_fill_band_aux [OF assms, of b v "[0 ..< n]"] show ?thesis
    by (simp add: fill_band_def)
qed

lemma severity_pairs:
  "zip [0 ..< length severityTerms] severityTerms =
   [(0, severityTerms ! 0), (1, severityTerms ! 1), (2, severityTerms ! 2)]"
  by (simp add: severityTerms_def upt_rec)

lemma severity_bands_unfold:
  "severity_bands ws e =
   fill_band (fill_band (fill_band e 300 20
       (severityScore ws (severityTerms ! 0) / (real (length (severityTerms ! 0)) + 1))) 320 20
       (severityScore ws (severityTerms ! 1) / (real (length (severityTerms ! 1)) + 1))) 340 20
       (severityScore ws (severityTerms ! 2) / (real (length (severityTerms ! 2)) + 1))"
  unfolding severity_bands_def severity_pairs by simp

lemma severity_band_cell:
  assumes "length e = 384" and "idx < 3" and "i < 20"
  shows "severity_bands ws e ! (300 + idx * 20 + i) =
         severityScore ws (severityTerms ! idx) / (real (length (severityTerms ! idx)) + 1)"
proof -
  from assms(2) consider "idx = 0" | "idx = 1" | "idx = 2" by linarith
  then show ?thesis
    using assms(1,3)
    by cases (simp_all add: severity_bands_unfold nth_fill_band length_fill_band)
qed

lemma severityScore_count:
  "severityScore ws severity = real (length (filter (\<lambda>keyword. keyword \<in> set ws) severity))"
  by (induction severity) (simp_all add: severityScore_def)


lemma length_category_bands: "length (category_bands ws e) = length e"
proof -
  have "length (fold (\<lambda>(idx, category) e.
             fill_band e (idx * 30) 30 (categoryScore ws category / (real (length category) + 1)))
          ps e) = length e" for ps
    by (induction ps arbitrary: e) (auto simp: length_fill_band)
  then show ?thesis by (simp add: category_bands_def)
qed

lemma length_severity_bands: "length (severity_bands ws e) = length e"
  by (simp add: severity_bands_unfold length_fill_band)

lemma length_hashed_words: "length (hashed_words ws e) = length e"
  unfolding hashed_words_def by (induction ws arbitrary: e) (auto simp: Let_def)

lemma length_raw_embedding: "length (raw_embedding t) = 384"
  by (simp add: raw_embedding_def banded_embedding_def Let_def length_hashed_words
      length_severity_bands length_category_bands)

text \<open>
  Claim C6 (as amended). For every input text, before the hashed component is added and
  the vector is normalised, every cell of the 20-element band of each of the 3 urgency
  tiers holds the same scalar: the number of the tier's keywords that are words of the
  text, divided by the size of the tier's keyword set plus 1. Substring matches do not
  count for the urgency tiers.
\<close>

theorem urgency_band_cells:
  assumes "idx < 3" and "i < 20"
  shows "banded_embedding (embedding_words t) ! (300 + idx * 20 + i) =
         real (length (filter (\<lambda>keyword. keyword \<in> set (embedding_words t)) (severityTerms ! idx))) /
         (real (length (severityTerms ! idx)) + 1)"
proof -
  have "length (category_bands (embedding_words t) (replicate 384 0)) = 384"
    by (simp add: length_category_bands)
  from severity_band_cell [OF this assms] show ?thesis
    by (simp add: banded_embedding_def severityScore_count)
qed

lemma words_please_help: "embedding_words ''Please help'' = [''please'', ''help'']"
  by code_simp

theorem urgency_band_cells_witness:
  "(2::nat) < 3 \<and> (0::nat) < 20 \<and>
   banded_embedding (embedding_words ''Please help'') ! 340 = 1 / 3"
  using urgency_band_cells [of 2 0 "''Please help''"]
  by (simp add: words_please_help severityTerms_def)

text \<open>
  The rule of the topic bands gives another value: the word helpful contains the keyword
  help, which the topic rule would count for one half.
\<close>

lemma words_helpful: "embedding_words ''helpful'' = [''helpful'']"
  by code_simp

theorem urgency_substring_counterexample:
  "banded_embedding (embedding_words ''helpful'') ! 340 \<noteq>
   categoryScore (embedding_words ''helpful'') (severityTerms ! 2) /
     (real (length (severityTerms ! 2)) + 1)"
proof -
  have "length (category_bands [''helpful''] (replicate 384 0)) = 384"
    by (simp add: length_category_bands)
  from severity_band_cell [OF this, of 2 0 "[''helpful'']"]
  have "banded_embedding [''helpful''] ! 340 = 0"
    by (simp add: banded_embedding_def severityScore_def severityTerms_def)
  moreover have "categoryScore [''helpful''] (severityTerms ! 2) = 1 / 2"
    by (simp add: categoryScore_def severityTerms_def)
  ultimately show ?thesis by (simp add: words_helpful severityTerms_def)
qed


lemma sq_sum_zero_iff:
  "sum_list (map (\<lambda>val. val * val) e) = 0 \<longleftrightarrow> (\<forall>v \<in> set e. v = (0::real))"
proof (induction e)
  case Nil
  then show ?case by simp
next
  case (Cons a e)
  have "0 \<le> a * a" by simp
  moreover have "0 \<le> sum_list (map (\<lambda>val. val * val) e)"
    by (rule sum_list_nonneg) auto
  ultimately have "a * a + sum_list (map (\<lambda>val. val * val) e) = 0 \<longleftrightarrow>
      a * a = 0 \<and> sum_list (map (\<lambda>val. val * val) e) = 0"
    by linarith
  with Cons show ?case by simp
qed

lemma magnitude_pos_iff: "0 < magnitude_of e \<longleftrightarrow> list_ex (\<lambda>v. v \<noteq> 0) e"
proof -
  have "0 \<le> sum_list (map (\<lambda>val. val * val) e)"
    by (rule sum_list_nonneg) auto
  then have "0 < sum_list (map (\<lambda>val. val * val) e) \<longleftrightarrow> \<not> (\<forall>v \<in> set e. v = 0)"
    using sq_sum_zero_iff [of e] by linarith
  then show ?thesis by (simp add: magnitude_of_def list_ex_iff)
qed

lemma sq_sum_scaled:
  "sum_list (map (\<lambda>val. val * val) (map (\<lambda>val. val / m) e)) =
   sum_list (map (\<lambda>val. val * val) e) / (m * m :: real)"
  by (induction e) (simp_all add: add_divide_distrib)

lemma magnitude_normalized:
  assumes "0 < magnitude_of e"
  shows "magnitude_of (normalize_embedding e) = 1"
proof -
  let ?q = "sum_list (map (\<lambda>val. val * val) e)"
  have q: "0 < ?q" using assms by (simp add: magnitude_of_def)
  have "magnitude_of (map (\<lambda>val. val / sqrt ?q) e) = sqrt (?q / (sqrt ?q * sqrt ?q))"
    by (simp only: magnitude_of_def sq_sum_scaled)
  also have "\<dots> = 1" using q by simp
  finally show ?thesis using assms by (simp add: normalize_embedding_def Let_def magnitude_of_def)
qed

text \<open>
  Claim C5. For every input text, the fingerprint has L2 norm 1 (so within 1e-6 of 1)
  whenever an entry is non-zero before normalisation, and a vector that is zero
  everywhere is returned as it is; the vector always has 384 entries.
\<close>

theorem fingerprint_unit_length:
  "(list_ex (\<lambda>v. v \<noteq> 0) (raw_embedding t) \<longrightarrow>
      magnitude_of (generateEmbedding t) = 1 \<and>
      \<bar>magnitude_of (generateEmbedding t) - 1\<bar> \<le> 1 / 10 ^ 6) \<and>
   (\<not> list_ex (\<lambda>v. v \<noteq> 0) (raw_embedding t) \<longrightarrow> generateEmbedding t = raw_embedding t) \<and>
   length (generateEmbedding t) = 384"
proof (intro conjI impI)
  assume "list_ex (\<lambda>v. v \<noteq> 0) (raw_embedding t)"
  then have "0 < magnitude_of (raw_embedding t)" by (simp add: magnitude_pos_iff)
  then show 1: "magnitude_of (generateEmbedding t) = 1"
    by (simp add: generateEmbedding_def magnitude_normalized)
  then show "\<bar>magnitude_of (generateEmbedding t) - 1\<bar> \<le> 1 / 10 ^ 6" by simp
next
  assume "\<not> list_ex (\<lambda>v. v \<noteq> 0) (raw_embedding t)"
  then have "\<not> 0 < magnitude_of (raw_embedding t)" by (simp add: magnitude_pos_iff)
  then show "generateEmbedding t = raw_embedding t"
    by (simp add: generateEmbedding_def normalize_embedding_def Let_def)
next
  show "length (generateEmbedding t) = 384"
    by (simp add: generateEmbedding_def normalize_embedding_def Let_def length_raw_embedding)
qed

lemma category_pairs:
  "zip [0 ..< length problemCategories] problemCategories =
   [(0, problemCategories ! 0), (1, problemCategories ! 1), (2, problemCategories ! 2),
    (3, problemCategories ! 3), (4, problemCategories ! 4), (5, problemCategories ! 5),
    (6, problemCategories ! 6), (7, problemCategories ! 7), (8, problemCategories ! 8),
    (9, problemCategories ! 9)]"
  by (simp add: problemCategories_def upt_rec)

lemma hashed_words_ge:
  "j < length e \<Longrightarrow> e ! j \<le> hashed_words ws e ! j"
  unfolding hashed_words_def
proof (induction ws arbitrary: e)
  case Nil
  then show ?case by simp
next
  case (Cons w ws)
  show ?case
  proof (cases "3 < length w")
    case True
    let ?e = "e[simpleHash w mod 384 := e ! (simpleHash w mod 384) + 1 / 10]"
    have "e ! j \<le> ?e ! j"
      using Cons.prems by (cases "j = simpleHash w mod 384") simp_all
    also have "\<dots> \<le> fold (\<lambda>word e. if 3 < length word
             then (let position = simpleHash word mod 384 in e[position := e ! position + 1 / 10])
             else e) ws ?e ! j"
      using Cons.IH [of ?e] Cons.prems by simp
    finally show ?thesis using True by (simp add: Let_def)
  next
    case False
    then show ?thesis using Cons.IH [OF Cons.prems] by simp
  qed
qed

lemma water_score: "categoryScore [''water''] (problemCategories ! 0) = 3 / 2"
  by (simp add: categoryScore_def problemCategories_def)

lemma water_first_cell: "category_bands [''water''] (replicate 384 0) ! 0 = 1 / 6"
  unfolding category_bands_def category_pairs
  by (simp add: nth_fill_band length_fill_band water_score) (simp add: problemCategories_def)

lemma words_water: "embedding_words ''Water'' = [''water'']"
  by code_simp

lemma water_nonzero: "list_ex (\<lambda>v. v \<noteq> 0) (raw_embedding ''Water'')"
proof -
  have "banded_embedding [''water''] ! 0 = 1 / 6"
    by (simp add: banded_embedding_def severity_bands_unfold nth_fill_band length_fill_band
        length_category_bands water_first_cell)
  moreover have "banded_embedding [''water''] ! 0 \<le> hashed_words [''water''] (banded_embedding [''water'']) ! 0"
    by (rule hashed_words_ge)
      (simp add: banded_embedding_def length_severity_bands length_category_bands)
  ultimately have "0 < hashed_words [''water''] (banded_embedding [''water'']) ! 0"
    by linarith
  then have "raw_embedding ''Water'' ! 0 \<noteq> 0"
    by (simp add: raw_embedding_def words_water Let_def)
  moreover have "raw_embedding ''Water'' ! 0 \<in> set (raw_embedding ''Water'')"
    by (rule nth_mem) (simp add: length_raw_embedding)
  ultimately show ?thesis unfolding list_ex_iff by blast
qed

lemma set_fill_band: "set (fill_band e b n v) \<subseteq> insert v (set e)"
proof -
  have "set (fold (\<lambda>i e. e[b + i := v]) is e) \<subseteq> insert v (set e)" for "is"
  proof (induction "is" arbitrary: e)
    case Nil
    then show ?case by auto
  next
    case (Cons i "is")
    have "set (e[b + i := v]) \<subseteq> insert v (set e)" by (rule set_update_subset_insert)
    with Cons [of "e[b + i := v]"] show ?case by auto
  qed
  then show ?thesis by (simp add: fill_band_def)
qed

lemma fill_band_zero: "set e \<subseteq> {0} \<Longrightarrow> set (fill_band e b n 0) \<subseteq> {0}"
  using set_fill_band [of e b n 0] by auto

lemma words_xyz: "embedding_words ''xyz'' = [''xyz'']"
  by code_simp

lemma xyz_category_scores:
  "list_all (\<lambda>category. categoryScore [''xyz''] category = 0) problemCategories"
  by (simp add: categoryScore_def problemCategories_def)

lemma xyz_severity_scores:
  "list_all (\<lambda>severity. severityScore [''xyz''] severity = 0) severityTerms"
  by (simp add: severityScore_def severityTerms_def)

lemma zero_category_bands:
  assumes "list_all (\<lambda>category. categoryScore ws category = 0) problemCategories"
    and "set e \<subseteq> {0}"
  shows "set (category_bands ws e) \<subseteq> {0}"
proof -
  have "\<forall>p \<in> set ps. categoryScore ws (snd p) = 0 \<Longrightarrow> set e \<subseteq> {0} \<Longrightarrow>
        set (fold (\<lambda>(idx, category) e.
             fill_band e (idx * 30) 30 (categoryScore ws category / (real (length category) + 1)))
          ps e) \<subseteq> {0}" for ps e
  proof (induction ps arbitrary: e)
    case Nil
    then show ?case by simp
  next
    case (Cons p ps)
    obtain idx category where p: "p = (idx, category)" by (cases p)
    have "set (fill_band e (idx * 30) 30 0) \<subseteq> {0}" using Cons.prems(2) by (rule fill_band_zero)
    with Cons.IH [of "fill_band e (idx * 30) 30 0"] Cons.prems(1) show ?case
      by (simp add: p)
  qed
  moreover have "\<forall>p \<in> set (zip [0 ..< length problemCategories] problemCategories).
      categoryScore ws (snd p) = 0"
    using assms(1) by (auto simp: list_all_iff dest: set_zip_rightD)
  ultimately show ?thesis using assms(2) by (simp add: category_bands_def)
qed

lemma xyz_zero: "\<not> list_ex (\<lambda>v. v \<noteq> 0) (raw_embedding ''xyz'')"
proof -
  have "set (category_bands [''xyz''] (replicate 384 0)) \<subseteq> {0}"
    by (rule zero_category_bands [OF xyz_category_scores]) simp
  then have "set (banded_embedding [''xyz'']) \<subseteq> {0}"
    using xyz_severity_scores
    by (simp add: banded_embedding_def severity_bands_unfold severityTerms_def fill_band_zero)
  moreover have "raw_embedding ''xyz'' = banded_embedding [''xyz'']"
    by (simp add: raw_embedding_def words_xyz hashed_words_def)
  ultimately show ?thesis by (auto simp: list_ex_iff)
qed

theorem fingerprint_unit_length_witness:
  "list_ex (\<lambda>v. v \<noteq> 0) (raw_embedding ''Water'') \<and>
   magnitude_of (generateEmbedding ''Water'') = 1 \<and>
   \<not> list_ex (\<lambda>v. v \<noteq> 0) (raw_embedding ''xyz'') \<and>
   generateEmbedding ''xyz'' = raw_embedding ''xyz''"
  using fingerprint_unit_length [of "''Water''"] fingerprint_unit_length [of "''xyz''"]
    water_nonzero xyz_zero
  by simp

section \<open>Properties of the Validator\<close>

subsection \<open>Normalisation of already cleaned text\<close>

text \<open>
  Every word the Validator keeps is free of white space and already lower-case, so
  joining the words with single spaces and normalising again splits at the same places.
\<close>

lemma toLowerChar_idem: "toLowerChar (toLowerChar c) = toLowerChar c"
proof -
  have "(of_char c :: nat) < 256" by simp
  then show ?thesis
    unfolding toLowerChar_def Let_def by (auto simp: of_char_of)
qed

lemma space_is_ws: "isWhiteSpace CHR '' ''"
  by (simp add: isWhiteSpace_def)

lemma toLowerChar_space: "toLowerChar CHR '' '' = CHR '' ''"
  by (simp add: toLowerChar_def)

lemma replace_ws_chars:
  "c \<in> set (replace_ws s) \<Longrightarrow> c = CHR '' '' \<or> (c \<in> set s \<and> \<not> isWhiteSpace c)"
proof (induction s rule: replace_ws.induct)
  case 1
  then show ?case by simp
next
  case (2 d ds)
  then show ?case
    by (auto split: if_splits dest: set_dropWhileD)
qed

lemma js_split_not_Nil: "js_split sep s \<noteq> []"
  by (induction s) (auto split: list.splits)

lemma js_split_chars:
  "w \<in> set (js_split sep s) \<Longrightarrow> c \<in> set w \<Longrightarrow> c \<in> set s \<and> c \<noteq> sep"
proof (induction s arbitrary: w)
  case Nil
  then show ?case by simp
next
  case (Cons d ds)
  show ?case
  proof (cases "d = sep")
    case True
    with Cons show ?thesis by auto
  next
    case False
    obtain v vs where vs: "js_split sep ds = v # vs"
      using js_split_not_Nil [of sep ds] by (cases "js_split sep ds") auto
    with False Cons.prems have "w = d # v \<or> w \<in> set vs" by auto
    then show ?thesis
    proof
      assume "w = d # v"
      with Cons.prems(2) have "c = d \<or> c \<in> set v" by auto
      then show ?thesis
        using False Cons.IH [of v] vs by auto
    next
      assume "w \<in> set vs"
      then show ?thesis using Cons.IH [of w] vs Cons.prems(2) by auto
    qed
  qed
qed

lemma ingestion_words_clean:
  assumes "w \<in> set (ingestion_words t)"
  shows "keep_word w" and "c \<in> set w \<Longrightarrow> \<not> isWhiteSpace c \<and> toLowerChar c = c"
proof -
  from assms show "keep_word w" by (simp add: ingestion_words_def)
  assume c: "c \<in> set w"
  from assms have w: "w \<in> set (js_split CHR '' '' (replace_ws (toLowerCase (trim t))))"
    by (simp add: ingestion_words_def)
  from js_split_chars [OF w c]
  have "c \<in> set (replace_ws (toLowerCase (trim t)))" and "c \<noteq> CHR '' ''" by auto
  with replace_ws_chars have "c \<in> set (toLowerCase (trim t))" and nws: "\<not> isWhiteSpace c"
    by blast+
  then obtain d where "c = toLowerChar d" by (auto simp: toLowerCase_def)
  with nws show "\<not> isWhiteSpace c \<and> toLowerChar c = c"
    by (simp add: toLowerChar_idem)
qed

lemma js_split_no_sep: "sep \<notin> set w \<Longrightarrow> js_split sep w = [w]"
  by (induction w) auto

lemma js_split_append:
  "sep \<notin> set w \<Longrightarrow> js_split sep (w @ sep # s) = w # js_split sep s"
  by (induction w) auto

lemma js_split_join:
  "ws \<noteq> [] \<Longrightarrow> \<forall>w \<in> set ws. sep \<notin> set w \<Longrightarrow> js_split sep (js_join sep ws) = ws"
  by (induction sep ws rule: js_join.induct) (auto simp: js_split_no_sep js_split_append)

lemma replace_ws_append:
  "\<forall>c \<in> set w. \<not> isWhiteSpace c \<Longrightarrow> replace_ws (w @ s) = w @ replace_ws s"
  by (induction w) auto

lemma dropWhile_id: "xs \<noteq> [] \<Longrightarrow> \<not> P (hd xs) \<Longrightarrow> dropWhile P xs = xs"
  by (cases xs) auto

lemma js_join_ends:
  "ws \<noteq> [] \<Longrightarrow> \<forall>w \<in> set ws. w \<noteq> [] \<Longrightarrow>
   js_join sep ws \<noteq> [] \<and> hd (js_join sep ws) = hd (hd ws) \<and>
   last (js_join sep ws) = last (last ws)"
  by (induction sep ws rule: js_join.induct) auto

lemma replace_ws_join:
  "\<forall>w \<in> set ws. w \<noteq> [] \<and> (\<forall>c \<in> set w. \<not> isWhiteSpace c) \<Longrightarrow>
   replace_ws (js_join CHR '' '' ws) = js_join CHR '' '' ws"
proof (induction "CHR '' ''" ws rule: js_join.induct)
  case 1
  then show ?case by simp
next
  case (2 w)
  then show ?case using replace_ws_append [of w "[]"] by simp
next
  case (3 w v ws)
  have "js_join CHR '' '' (v # ws) \<noteq> []" and "hd (js_join CHR '' '' (v # ws)) = hd v"
    using js_join_ends [of "v # ws" "CHR '' ''"] 3 by auto
  moreover have "\<not> isWhiteSpace (hd v)" using 3 by (cases v) auto
  ultimately have "dropWhile isWhiteSpace (js_join CHR '' '' (v # ws)) = js_join CHR '' '' (v # ws)"
    by (simp add: dropWhile_id)
  then show ?case using 3 by (simp add: replace_ws_append space_is_ws)
qed

lemma trim_id:
  "s = [] \<or> (\<not> isWhiteSpace (hd s) \<and> \<not> isWhiteSpace (last s)) \<Longrightarrow> trim s = s"
proof (cases s)
  case Nil
  then show ?thesis by (simp add: trim_def)
next
  case (Cons a as)
  assume "s = [] \<or> (\<not> isWhiteSpace (hd s) \<and> \<not> isWhiteSpace (last s))"
  with Cons have a: "\<not> isWhiteSpace a" and l: "\<not> isWhiteSpace (last s)" by auto
  from a Cons have 1: "dropWhile isWhiteSpace s = s" by simp
  have "rev s \<noteq> []" using Cons by simp
  moreover have "hd (rev s) = last s" using Cons by (simp add: hd_rev)
  ultimately have "dropWhile isWhiteSpace (rev s) = rev s" using l
    by (simp add: dropWhile_id)
  with 1 show ?thesis by (simp add: trim_def)
qed

lemma js_join_chars:
  "c \<in> set (js_join sep ws) \<Longrightarrow> c = sep \<or> (\<exists>w \<in> set ws. c \<in> set w)"
  by (induction sep ws rule: js_join.induct) auto

lemma ingestion_words_join:
  assumes "\<forall>w \<in> set ws. keep_word w \<and> (\<forall>c \<in> set w. \<not> isWhiteSpace c \<and> toLowerChar c = c)"
  shows "ingestion_words (js_join CHR '' '' ws) = ws"
proof (cases "ws = []")
  case True
  then show ?thesis
    by (simp add: ingestion_words_def trim_def toLowerCase_def keep_word_def)
next
  case False
  let ?s = "js_join CHR '' '' ws"
  have ne: "\<forall>w \<in> set ws. w \<noteq> []" using assms by (auto simp: keep_word_def)
  have hd_ne: "hd ws \<noteq> []" and last_ne: "last ws \<noteq> []" using False ne by auto
  have "\<not> isWhiteSpace (hd (hd ws))" using assms False hd_ne
    by (metis hd_in_set)
  moreover have "\<not> isWhiteSpace (last (last ws))" using assms False last_ne
    by (metis last_in_set)
  ultimately have t: "trim ?s = ?s"
    using js_join_ends [OF False ne, of "CHR '' ''"]
    by (intro trim_id) simp
  have "\<forall>c \<in> set ?s. toLowerChar c = c"
    using assms js_join_chars [of _ "CHR '' ''" ws] toLowerChar_space by blast
  then have l: "toLowerCase ?s = ?s"
    by (simp add: toLowerCase_def map_idI)
  have r: "replace_ws ?s = ?s"
    using assms ne by (intro replace_ws_join) auto
  have "\<forall>w \<in> set ws. CHR '' '' \<notin> set w" using assms space_is_ws by auto
  then have s: "js_split CHR '' '' ?s = ws" using False by (intro js_split_join) auto
  have "filter keep_word ws = ws" using assms by (simp add: filter_id_conv)
  with t l r s show ?thesis by (simp add: ingestion_words_def)
qed

text \<open>
  Claim C9. For every input text, normalising the Validator's own cleaned output (trim,
  lower-case, collapse white space, drop stop-words and tokens of length at most 2)
  gives back the same token list: nothing is dropped a second time.
\<close>

theorem validator_idempotent:
  "ingestion_words (cleaned_text (ingest t loc)) = ingestion_words t"
proof -
  have "cleaned_text (ingest t loc) = js_join CHR '' '' (ingestion_words t)"
    by (simp add: ingest_def Let_def)
  moreover have "ingestion_words (js_join CHR '' '' (ingestion_words t)) = ingestion_words t"
    using ingestion_words_clean [of _ t] by (intro ingestion_words_join) blast
  ultimately show ?thesis by simp
qed

theorem validator_idempotent_witness:
  "ingestion_words (cleaned_text (ingest ''The  Pipe is BROKEN at home'' '''')) =
   ingestion_words ''The  Pipe is BROKEN at home''"
  using validator_idempotent [of "''The  Pipe is BROKEN at home''" "''''"] by simp

subsection \<open>Scenario C\<close>

lemma scenario_c_words:
  "ingestion_words ''Water is leaking badly near my house every single day'' =
   [''water'', ''leaking'', ''badly'', ''near'', ''house'', ''every'', ''single'', ''day'']"
  by code_simp

lemma scenario_c_no_spam:
  "\<not> spam_regex ''Water is leaking badly near my house every single day''"
  by code_simp

lemma scenario_c_cleaned:
  "cleaned_text (ingest ''Water is leaking badly near my house every single day'' loc) =
   ''water leaking badly near house every single day''"
  by (simp add: ingest_def Let_def scenario_c_words)

lemma scenario_c_tokens:
  "js_split CHR '' '' ''water leaking badly near house every single day'' =
   [''water'', ''leaking'', ''badly'', ''near'', ''house'', ''every'', ''single'', ''day'']"
  by code_simp

text \<open>
  Claim C8 (as amended). For the text of Scenario C the Validator accepts, and the cleaned
  text consists of the tokens water, leaking, badly, near, house, every, single, day:
  it contains water, leaking, badly and house, it excludes is and my, and it keeps near,
  which is longer than two characters and is not in the stop-word list.
\<close>

theorem scenario_c_accept:
  "is_valid (ingest ''Water is leaking badly near my house every single day'' loc) \<and>
   js_split CHR '' '' (cleaned_text
       (ingest ''Water is leaking badly near my house every single day'' loc)) =
     [''water'', ''leaking'', ''badly'', ''near'', ''house'', ''every'', ''single'', ''day'']"
proof -
  have "is_valid (ingest ''Water is leaking badly near my house every single day'' loc)"
    using scenario_c_no_spam by (simp add: ingest_def Let_def scenario_c_words)
  then show ?thesis
    by (simp only: scenario_c_cleaned scenario_c_tokens simp_thms)
qed

theorem scenario_c_accept_witness:
  "is_valid (ingest ''Water is leaking badly near my house every single day'' ''Ward 5'') \<and>
   ''water'' \<in> set (js_split CHR '' '' (cleaned_text
       (ingest ''Water is leaking badly near my house every single day'' ''Ward 5''))) \<and>
   ''near'' \<in> set (js_split CHR '' '' (cleaned_text
       (ingest ''Water is leaking badly near my house every single day'' ''Ward 5''))) \<and>
   ''is'' \<notin> set (js_split CHR '' '' (cleaned_text
       (ingest ''Water is leaking badly near my house every single day'' ''Ward 5''))) \<and>
   ''my'' \<notin> set (js_split CHR '' '' (cleaned_text
       (ingest ''Water is leaking badly near my house every single day'' ''Ward 5'')))"
  using scenario_c_accept [of "''Ward 5''"] by simp

text \<open>The claim as first stated, with near among the excluded tokens, fails.\<close>

theorem scenario_c_near_counterexample:
  "\<not> (is_valid (ingest ''Water is leaking badly near my house every single day'' '''') \<and>
      ''water'' \<in> set (js_split CHR '' '' (cleaned_text
         (ingest ''Water is leaking badly near my house every single day'' ''''))) \<and>
      ''leaking'' \<in> set (js_split CHR '' '' (cleaned_text
         (ingest ''Water is leaking badly near my house every single day'' ''''))) \<and>
      ''badly'' \<in> set (js_split CHR '' '' (cleaned_text
         (ingest ''Water is leaking badly near my house every single day'' ''''))) \<and>
      ''house'' \<in> set (js_split CHR '' '' (cleaned_text
         (ingest ''Water is leaking badly near my house every single day'' ''''))) \<and>
      ''is'' \<notin> set (js_split CHR '' '' (cleaned_text
         (ingest ''Water is leaking badly near my house every single day'' ''''))) \<and>
      ''near'' \<notin> set (js_split CHR '' '' (cleaned_text
         (ingest ''Water is leaking badly near my house every single day'' ''''))) \<and>
      ''my'' \<notin> set (js_split CHR '' '' (cleaned_text
         (ingest ''Water is leaking badly near my house every single day'' ''''))))"
  by (simp only: scenario_c_cleaned scenario_c_tokens) simp

end
